theory Spec2Isabelle
  imports Complex_Main
begin

section \<open>The residual building block (demo05, ResNet notebook)\<close>

text \<open>
  The notebook builds its block from three layers of the tensor library:
  \<^verbatim>\<open>nn.Conv2d\<close>, \<^verbatim>\<open>nn.BatchNorm2d\<close> and \<^verbatim>\<open>nn.ReLU\<close>. A tensor is modelled by what
  the notebook observes of it: its shape (the \<^verbatim>\<open>torch.Size\<close> it prints) and the
  node of the computation graph that produced it. The numeric contents (floating point)
  are not modelled in this section.
\<close>

datatype op_graph =
    Input
  | ConvOp string op_graph
  | BnOp string op_graph
  | ReluOp op_graph
  | AddOp op_graph op_graph

record tensor =
  shape :: "nat list"
  node :: op_graph

text \<open>
  The exceptions the two notebooks can raise, each named after the check that raises it:
  the shape checks of the layers, an index out of range, a tensor built from text, an
  exhausted iterator and an unassigned variable.
\<close>

datatype error =
    RuntimeError_conv_rank
  | RuntimeError_conv_weight
  | RuntimeError_conv_channels
  | RuntimeError_conv_kernel
  | ValueError_bn_rank
  | ValueError_bn_one_value
  | RuntimeError_bn_channels
  | RuntimeError_size_mismatch
  | RuntimeError_matmul_shapes
  | IndexError
  | ValueError_tensor_of_str
  | StopIteration
  | NameError

text \<open>
  \<^verbatim>\<open>nn.Conv2d(in_channels, out_channels, kernel_size, padding)\<close> with the defaults the
  notebook leaves untouched: stride 1, dilation 1, groups 1.
\<close>

record Conv2d =
  conv_name :: string
  in_channels :: nat
  out_channels :: nat
  kernel_size :: nat
  padding :: nat

record BatchNorm2d =
  bn_name :: string
  num_features :: nat
  training :: bool

text \<open>
  The shape checks of a convolution, in the library's order: the weight has at least
  \<open>groups = 1\<close> output channels, the input is a batched 4-D tensor (or an unbatched 3-D
  one), its channel count is \<open>in_channels\<close>, and the kernel is not larger than the padded
  input. The output size of a spatial dimension with stride 1 and dilation 1 is
  \<open>n + 2 * padding - kernel_size + 1\<close>.
\<close>

definition conv_out :: "Conv2d \<Rightarrow> nat \<Rightarrow> nat" where
  "conv_out c n = n + 2 * padding c - kernel_size c + 1"

definition Conv2d_forward :: "Conv2d \<Rightarrow> tensor \<Rightarrow> error + tensor" where
  "Conv2d_forward c x =
     (if out_channels c < 1 then Inl RuntimeError_conv_weight
      else case shape x of
        [B, C, H, W] \<Rightarrow>
          if C \<noteq> in_channels c then Inl RuntimeError_conv_channels
          else if H + 2 * padding c < kernel_size c \<or> W + 2 * padding c < kernel_size c
            then Inl RuntimeError_conv_kernel
          else Inr \<lparr>shape = [B, out_channels c, conv_out c H, conv_out c W],
                    node = ConvOp (conv_name c) (node x)\<rparr>
      | [C, H, W] \<Rightarrow>
          if C \<noteq> in_channels c then Inl RuntimeError_conv_channels
          else if H + 2 * padding c < kernel_size c \<or> W + 2 * padding c < kernel_size c
            then Inl RuntimeError_conv_kernel
          else Inr \<lparr>shape = [out_channels c, conv_out c H, conv_out c W],
                    node = ConvOp (conv_name c) (node x)\<rparr>
      | _ \<Rightarrow> Inl RuntimeError_conv_rank)"

text \<open>
  Batch normalisation over a 4-D input. In training mode (the mode of every freshly
  constructed module; the notebook never calls \<^verbatim>\<open>eval()\<close>) the library refuses an input
  with a single value per channel: \<^verbatim>\<open>size[0] * prod(size[2:]) == 1\<close>.
\<close>

definition BatchNorm2d_forward :: "BatchNorm2d \<Rightarrow> tensor \<Rightarrow> error + tensor" where
  "BatchNorm2d_forward b x =
     (case shape x of
        [B, C, H, W] \<Rightarrow>
          if training b \<and> B * H * W = 1 then Inl ValueError_bn_one_value
          else if C \<noteq> num_features b then Inl RuntimeError_bn_channels
          else Inr \<lparr>shape = [B, C, H, W], node = BnOp (bn_name b) (node x)\<rparr>
      | _ \<Rightarrow> Inl ValueError_bn_rank)"

definition ReLU_forward :: "tensor \<Rightarrow> tensor" where
  "ReLU_forward x = \<lparr>shape = shape x, node = ReluOp (node x)\<rparr>"

text \<open>
  \<^verbatim>\<open>out += x\<close> is an in-place addition: the result keeps the shape of \<^verbatim>\<open>out\<close>, so \<^verbatim>\<open>x\<close>
  must broadcast to that shape. Aligned from the last dimension, every size of \<^verbatim>\<open>x\<close>
  equals the size of \<^verbatim>\<open>out\<close> or is 1, and \<^verbatim>\<open>x\<close> has no more dimensions than \<^verbatim>\<open>out\<close>.
\<close>

fun expands_to :: "nat list \<Rightarrow> nat list \<Rightarrow> bool" where
  "expands_to [] ys = True"
| "expands_to (x # xs) [] = False"
| "expands_to (x # xs) (y # ys) = ((x = y \<or> x = 1) \<and> expands_to xs ys)"

definition iadd :: "tensor \<Rightarrow> tensor \<Rightarrow> error + tensor" where
  "iadd out x =
     (if expands_to (rev (shape x)) (rev (shape out))
      then Inr \<lparr>shape = shape out, node = AddOp (node out) (node x)\<rparr>
      else Inl RuntimeError_size_mismatch)"

record BuildingBlock =
  conv1 :: Conv2d
  bn1 :: BatchNorm2d
  conv2 :: Conv2d
  bn2 :: BatchNorm2d

text \<open>The first \<^verbatim>\<open>__init__\<close> (cell 3): 3x3 convolutions without padding.\<close>

definition BuildingBlock_unpadded :: "nat \<Rightarrow> BuildingBlock" where
  "BuildingBlock_unpadded num_channels =
     \<lparr>conv1 = \<lparr>conv_name = ''conv1'', in_channels = num_channels,
                out_channels = num_channels, kernel_size = 3, padding = 0\<rparr>,
      bn1 = \<lparr>bn_name = ''bn1'', num_features = num_channels, training = True\<rparr>,
      conv2 = \<lparr>conv_name = ''conv2'', in_channels = num_channels,
                out_channels = num_channels, kernel_size = 3, padding = 0\<rparr>,
      bn2 = \<lparr>bn_name = ''bn2'', num_features = num_channels, training = True\<rparr>\<rparr>"

text \<open>The fixed \<^verbatim>\<open>__init__\<close> (cell 6): \<^verbatim>\<open>padding=1\<close> on both convolutions.\<close>

definition BuildingBlock_padded :: "nat \<Rightarrow> BuildingBlock" where
  "BuildingBlock_padded num_channels =
     \<lparr>conv1 = \<lparr>conv_name = ''conv1'', in_channels = num_channels,
                out_channels = num_channels, kernel_size = 3, padding = 1\<rparr>,
      bn1 = \<lparr>bn_name = ''bn1'', num_features = num_channels, training = True\<rparr>,
      conv2 = \<lparr>conv_name = ''conv2'', in_channels = num_channels,
                out_channels = num_channels, kernel_size = 3, padding = 1\<rparr>,
      bn2 = \<lparr>bn_name = ''bn2'', num_features = num_channels, training = True\<rparr>\<rparr>"

text \<open>
  \<^verbatim>\<open>forward\<close> is the same text in both cells. It returns the shapes printed so far
  together with the result: an exception keeps what was printed before it.
\<close>

definition forward :: "BuildingBlock \<Rightarrow> tensor \<Rightarrow> nat list list \<times> (error + tensor)" where
  "forward self x =
     (case Conv2d_forward (conv1 self) x of
        Inl e \<Rightarrow> ([], Inl e)
      | Inr out1 \<Rightarrow>
     (case BatchNorm2d_forward (bn1 self) out1 of
        Inl e \<Rightarrow> ([], Inl e)
      | Inr out2 \<Rightarrow>
     (let out3 = ReLU_forward out2;
          printed1 = [shape out3]
      in case Conv2d_forward (conv2 self) out3 of
        Inl e \<Rightarrow> (printed1, Inl e)
      | Inr out4 \<Rightarrow>
     (case BatchNorm2d_forward (bn2 self) out4 of
        Inl e \<Rightarrow> (printed1, Inl e)
      | Inr out5 \<Rightarrow>
     (let printed2 = printed1 @ [shape out5]
      in case iadd out5 x of
        Inl e \<Rightarrow> (printed2, Inl e)
      | Inr out6 \<Rightarrow> (printed2, Inr (ReLU_forward out6)))))))"

section \<open>The width sweep (implicit-regularisation notebook)\<close>

text \<open>
  The second notebook trains two-layer networks on the abalone table. Numbers are
  modelled as reals: a tensor of rank one is a \<open>real list\<close>, a tensor of rank two a list
  of rows. Rounding, infinities and NaN of the floating-point types are not modelled.
\<close>

subsection \<open>The data set\<close>

text \<open>
  A cell of the data frame holds text (the sex column) or a number. \<open>the_Num\<close> reads a
  number; it is applied only where \<open>is_Num\<close> holds.
\<close>

datatype cell = Str string | Num real

fun is_Num :: "cell \<Rightarrow> bool" where
  "is_Num (Num r) = True"
| "is_Num (Str s) = False"

fun the_Num :: "cell \<Rightarrow> real" where
  "the_Num (Num r) = r"
| "the_Num (Str s) = 0"

text \<open>
  Indexing by position, as \<^verbatim>\<open>row[i]\<close> and \<^verbatim>\<open>data.iloc[idx]\<close> do: a negative index counts
  from the end, and an index outside \<open>[-n, n)\<close> raises \<^verbatim>\<open>IndexError\<close>.
\<close>

definition py_index :: "'a list \<Rightarrow> int \<Rightarrow> error + 'a" where
  "py_index xs i =
     (let n = int (length xs)
      in if 0 \<le> i \<and> i < n then Inr (xs ! nat i)
         else if - n \<le> i \<and> i < 0 then Inr (xs ! nat (n + i))
         else Inl IndexError)"

text \<open>\<^verbatim>\<open>torch.tensor\<close> of a list (or of one value) refuses text.\<close>

definition torch_tensor :: "cell list \<Rightarrow> error + real list" where
  "torch_tensor cs =
     (if list_all is_Num cs then Inr (map the_Num cs) else Inl ValueError_tensor_of_str)"

definition torch_scalar :: "cell \<Rightarrow> error + real" where
  "torch_scalar c = (if is_Num c then Inr (the_Num c) else Inl ValueError_tensor_of_str)"

record AbaloneData =
  data :: "cell list list"

definition AbaloneData_len :: "AbaloneData \<Rightarrow> nat" where
  "AbaloneData_len self = length (data self)"

text \<open>
  \<^verbatim>\<open>__getitem__\<close>: the row as a list, the sex column turned into 0 (\<^verbatim>\<open>'M'\<close>) or 1
  (anything else) in front of \<^verbatim>\<open>row[1:8]\<close>, and \<^verbatim>\<open>row[8]\<close> as the label.
\<close>

definition AbaloneData_getitem :: "AbaloneData \<Rightarrow> int \<Rightarrow> error + (real list \<times> real)" where
  "AbaloneData_getitem self idx =
     (case py_index (data self) idx of
        Inl e \<Rightarrow> Inl e
      | Inr row \<Rightarrow>
     (case py_index row 0 of
        Inl e \<Rightarrow> Inl e
      | Inr sex \<Rightarrow>
     (let x = Num (if sex = Str ''M'' then 0 else 1) # take 7 (drop 1 row)
      in case py_index row 8 of
        Inl e \<Rightarrow> Inl e
      | Inr y \<Rightarrow>
     (case torch_tensor x of
        Inl e \<Rightarrow> Inl e
      | Inr xt \<Rightarrow>
     (case torch_scalar y of
        Inl e \<Rightarrow> Inl e
      | Inr yt \<Rightarrow> Inr (xt, yt))))))"

subsection \<open>The data loader\<close>

record DataLoader =
  dataset :: AbaloneData
  batch_size :: nat
  shuffle :: bool

text \<open>
  The batch sampler cuts the order of indices into runs of \<open>batch_size\<close>, the last one
  possibly shorter (\<^verbatim>\<open>drop_last=False\<close>). A loader cannot be built with a batch size of
  0; here such a size yields no batch.
\<close>

function chunk :: "nat \<Rightarrow> 'a list \<Rightarrow> 'a list list" where
  "chunk n xs = (if n = 0 \<or> xs = [] then [] else take n xs # chunk n (drop n xs))"
  by pat_completeness auto
termination
  by (relation "measure (\<lambda>(n, xs). length xs)") auto

declare chunk.simps [simp del]

text \<open>
  Without \<^verbatim>\<open>shuffle\<close> the sampler yields \<open>0, 1, ..., n - 1\<close>. With \<^verbatim>\<open>shuffle=True\<close> it yields a
  random permutation of them, drawn anew for every iterator: the permutation is given
  by the random keys \<open>key i\<close> drawn for the indices, which it sorts.
\<close>

definition sampler :: "DataLoader \<Rightarrow> (nat \<Rightarrow> real) \<Rightarrow> nat list" where
  "sampler dl key =
     (if shuffle dl then sort_key key [0..<AbaloneData_len (dataset dl)]
      else [0..<AbaloneData_len (dataset dl)])"

definition DataLoader_iter :: "DataLoader \<Rightarrow> (nat \<Rightarrow> real) \<Rightarrow> nat list list" where
  "DataLoader_iter dl key = chunk (batch_size dl) (sampler dl key)"

text \<open>The first error of a list of results, or all the values.\<close>

fun collect :: "(error + 'a) list \<Rightarrow> error + 'a list" where
  "collect [] = Inr []"
| "collect (r # rs) =
     (case r of
        Inl e \<Rightarrow> Inl e
      | Inr v \<Rightarrow> (case collect rs of Inl e \<Rightarrow> Inl e | Inr vs \<Rightarrow> Inr (v # vs)))"

text \<open>
  Fetching a batch: \<^verbatim>\<open>[dataset[i] for i in indices]\<close>, collated into the matrix of the
  feature vectors and the vector of the labels.
\<close>

definition fetch :: "AbaloneData \<Rightarrow> nat list \<Rightarrow> error + (real list list \<times> real list)" where
  "fetch ds idxs =
     (case collect (map (\<lambda>i. AbaloneData_getitem ds (int i)) idxs) of
        Inl e \<Rightarrow> Inl e
      | Inr samples \<Rightarrow> Inr (map fst samples, map snd samples))"

text \<open>\<^verbatim>\<open>next(iter(loader))\<close>: the first batch, or \<^verbatim>\<open>StopIteration\<close> when there is none.\<close>

definition first_batch ::
    "DataLoader \<Rightarrow> (nat \<Rightarrow> real) \<Rightarrow> error + (real list list \<times> real list)" where
  "first_batch dl key =
     (case DataLoader_iter dl key of
        [] \<Rightarrow> Inl StopIteration
      | idxs # rest \<Rightarrow> fetch (dataset dl) idxs)"

text \<open>
  The loaders of the notebook, over the shuffled table \<open>csv\<close>: \<^verbatim>\<open>csv[:3000]\<close> for training
  and \<^verbatim>\<open>csv[3000:4000]\<close> for testing, both in batches of 1000.
\<close>

definition train_loader :: "cell list list \<Rightarrow> DataLoader" where
  "train_loader csv = \<lparr>dataset = \<lparr>data = take 3000 csv\<rparr>, batch_size = 1000, shuffle = True\<rparr>"

definition test_loader :: "cell list list \<Rightarrow> DataLoader" where
  "test_loader csv =
     \<lparr>dataset = \<lparr>data = take 1000 (drop 3000 csv)\<rparr>, batch_size = 1000, shuffle = False\<rparr>"

subsection \<open>Layers\<close>

text \<open>
  \<^verbatim>\<open>nn.Linear(in_features, out_features, bias)\<close>: the weight is a matrix of
  \<open>out_features\<close> rows and \<open>in_features\<close> columns, the bias (when there is one) a vector
  of \<open>out_features\<close> numbers. Each parameter carries its \<^verbatim>\<open>.grad\<close>, \<^verbatim>\<open>None\<close> until the first
  backward pass.
\<close>

record Linear =
  in_features :: nat
  out_features :: nat
  weight :: "real list list"
  weight_grad :: "real list list option"
  bias :: "real list option"
  bias_grad :: "real list option"

text \<open>
  The initial values are random: \<open>init j k\<close> is the number drawn for row \<open>j\<close>, column \<open>k\<close>
  of the weight, and \<open>init j in_features\<close> the one drawn for the bias of row \<open>j\<close>.
\<close>

definition Linear_init :: "nat \<Rightarrow> nat \<Rightarrow> bool \<Rightarrow> (nat \<Rightarrow> nat \<Rightarrow> real) \<Rightarrow> Linear" where
  "Linear_init n_in n_out use_bias init =
     \<lparr>in_features = n_in, out_features = n_out,
      weight = map (\<lambda>j. map (\<lambda>k. init j k) [0..<n_in]) [0..<n_out],
      weight_grad = None,
      bias = (if use_bias then Some (map (\<lambda>j. init j n_in) [0..<n_out]) else None),
      bias_grad = None\<rparr>"

definition dot :: "real list \<Rightarrow> real list \<Rightarrow> real" where
  "dot a b = sum_list (map2 (*) a b)"

text \<open>
  \<open>y = x W\<^sup>T + b\<close>, row by row. Every row of the input must have \<open>in_features\<close>
  entries; the library refuses the product otherwise.
\<close>

definition Linear_row :: "Linear \<Rightarrow> real list \<Rightarrow> real list" where
  "Linear_row l r =
     (case bias l of
        None \<Rightarrow> map (\<lambda>w. dot r w) (weight l)
      | Some b \<Rightarrow> map2 (\<lambda>w bj. dot r w + bj) (weight l) b)"

definition Linear_forward :: "Linear \<Rightarrow> real list list \<Rightarrow> error + real list list" where
  "Linear_forward l x =
     (if list_all (\<lambda>r. length r = in_features l) x then Inr (map (Linear_row l) x)
      else Inl RuntimeError_matmul_shapes)"

definition relu :: "real \<Rightarrow> real" where
  "relu v = max 0 v"

datatype Layer = LinearL Linear | ReLUL

fun Layer_forward :: "Layer \<Rightarrow> real list list \<Rightarrow> error + real list list" where
  "Layer_forward (LinearL l) x = Linear_forward l x"
| "Layer_forward ReLUL x = Inr (map (map relu) x)"

text \<open>\<^verbatim>\<open>nn.Sequential\<close>: the layers one after the other.\<close>

fun Sequential_forward :: "Layer list \<Rightarrow> real list list \<Rightarrow> error + real list list" where
  "Sequential_forward [] x = Inr x"
| "Sequential_forward (l # ls) x =
     (case Layer_forward l x of
        Inl e \<Rightarrow> Inl e
      | Inr y \<Rightarrow> Sequential_forward ls y)"

record Model =
  layers :: "Layer list"

text \<open>
  \<^verbatim>\<open>Model(layer_size)\<close>: \<^verbatim>\<open>Linear(8, layer_size, bias=False)\<close>, \<^verbatim>\<open>ReLU\<close>,
  \<^verbatim>\<open>Linear(layer_size, 1, bias=False)\<close>, \<^verbatim>\<open>ReLU\<close>. The random source of a call holds the
  numbers drawn for the two weights and, for the \<open>i\<close>-th iterator made over a loader, the
  keys of its shuffle.
\<close>

record rng =
  init_w1 :: "nat \<Rightarrow> nat \<Rightarrow> real"
  init_w2 :: "nat \<Rightarrow> nat \<Rightarrow> real"
  shuffle_key :: "nat \<Rightarrow> nat \<Rightarrow> real"

definition Model_init :: "nat \<Rightarrow> rng \<Rightarrow> Model" where
  "Model_init layer_size g =
     \<lparr>layers = [LinearL (Linear_init 8 layer_size False (init_w1 g)), ReLUL,
                LinearL (Linear_init layer_size 1 False (init_w2 g)), ReLUL]\<rparr>"

definition Model_forward :: "Model \<Rightarrow> real list list \<Rightarrow> error + real list list" where
  "Model_forward self x = Sequential_forward (layers self) x"

text \<open>
  \<^verbatim>\<open>model.parameters()\<close>, each parameter by its \<^verbatim>\<open>numel()\<close>: the weight of every linear
  layer, then its bias when it has one.
\<close>

definition numel :: "real list list \<Rightarrow> nat" where
  "numel m = sum_list (map length m)"

fun Layer_numels :: "Layer \<Rightarrow> nat list" where
  "Layer_numels (LinearL l) =
     numel (weight l) # (case bias l of None \<Rightarrow> [] | Some b \<Rightarrow> [length b])"
| "Layer_numels ReLUL = []"

definition parameters_numel :: "Model \<Rightarrow> nat list" where
  "parameters_numel self = concat (map Layer_numels (layers self))"

subsection \<open>Loss, gradients and the optimiser\<close>

text \<open>
  \<^verbatim>\<open>.squeeze()\<close> drops the dimensions of size 1: the \<open>n x 1\<close> output of the model becomes
  a vector of \<open>n\<close> numbers (for \<open>n = 1\<close> a single number, which the loss treats as a vector
  of one).
\<close>

definition squeeze :: "real list list \<Rightarrow> real list" where
  "squeeze out = concat out"

text \<open>
  \<^verbatim>\<open>nn.MSELoss()\<close>: the mean of the squared differences. Prediction and target come
  from the same batch, so they have the same length and the batch is not empty; for
  other lengths, which the library would broadcast or refuse, the result here is the
  size-mismatch error.
\<close>

definition MSELoss :: "real list \<Rightarrow> real list \<Rightarrow> error + real" where
  "MSELoss yhat y =
     (if length yhat = length y
      then Inr (sum_list (map2 (\<lambda>a b. (a - b)\<^sup>2) yhat y) / real (length y))
      else Inl RuntimeError_size_mismatch)"

text \<open>
  The forward pass under autograd keeps what the backward pass needs: the input of
  every layer, followed by the final output.
\<close>

fun Sequential_tape :: "Layer list \<Rightarrow> real list list \<Rightarrow> error + real list list list" where
  "Sequential_tape [] x = Inr [x]"
| "Sequential_tape (l # ls) x =
     (case Layer_forward l x of
        Inl e \<Rightarrow> Inl e
      | Inr y \<Rightarrow> (case Sequential_tape ls y of Inl e \<Rightarrow> Inl e | Inr t \<Rightarrow> Inr (x # t)))"

text \<open>
  \<^verbatim>\<open>loss.backward()\<close>. The gradient of the mean squared error with respect to the
  prediction, passed back through \<^verbatim>\<open>squeeze\<close> as one row per sample:
\<close>

definition MSELoss_backward :: "real list \<Rightarrow> real list \<Rightarrow> real list list" where
  "MSELoss_backward yhat y = map2 (\<lambda>a b. [2 * (a - b) / real (length y)]) yhat y"

text \<open>
  A gradient is stored into \<^verbatim>\<open>.grad\<close> when that is \<^verbatim>\<open>None\<close> and added to it otherwise.
\<close>

fun accumulate :: "real list list option \<Rightarrow> real list list \<Rightarrow> real list list option" where
  "accumulate None g = Some g"
| "accumulate (Some a) g = Some (map2 (map2 (+)) a g)"

fun accumulate1 :: "real list option \<Rightarrow> real list \<Rightarrow> real list option" where
  "accumulate1 None g = Some g"
| "accumulate1 (Some a) g = Some (map2 (+) a g)"

text \<open>
  Through a linear layer with input \<open>x\<close> and output gradient \<open>gy\<close> (one row per sample):
  the gradient of the weight is \<open>gy\<^sup>T x\<close>, that of the bias the column sums of \<open>gy\<close>, and
  that of the input \<open>gy W\<close>.
\<close>

definition Linear_weight_grad :: "Linear \<Rightarrow> real list list \<Rightarrow> real list list \<Rightarrow> real list list" where
  "Linear_weight_grad l x gy =
     map (\<lambda>j. map (\<lambda>k. sum_list (map2 (\<lambda>g r. g ! j * r ! k) gy x)) [0..<in_features l])
       [0..<out_features l]"

definition Linear_bias_grad :: "Linear \<Rightarrow> real list list \<Rightarrow> real list" where
  "Linear_bias_grad l gy = map (\<lambda>j. sum_list (map (\<lambda>g. g ! j) gy)) [0..<out_features l]"

definition Linear_input_grad :: "Linear \<Rightarrow> real list list \<Rightarrow> real list list" where
  "Linear_input_grad l gy =
     map (\<lambda>g. map (\<lambda>k. sum_list (map2 (\<lambda>gj w. gj * w ! k) g (weight l))) [0..<in_features l]) gy"

definition Linear_backward ::
    "Linear \<Rightarrow> real list list \<Rightarrow> real list list \<Rightarrow> Linear \<times> real list list" where
  "Linear_backward l x gy =
     (l\<lparr>weight_grad := accumulate (weight_grad l) (Linear_weight_grad l x gy),
        bias_grad := (case bias l of
                        None \<Rightarrow> bias_grad l
                      | Some b \<Rightarrow> accumulate1 (bias_grad l) (Linear_bias_grad l gy))\<rparr>,
      Linear_input_grad l gy)"

text \<open>Through a ReLU the gradient passes where the input was positive.\<close>

definition ReLU_backward :: "real list list \<Rightarrow> real list list \<Rightarrow> real list list" where
  "ReLU_backward x gy = map2 (map2 (\<lambda>v g. if 0 < v then g else 0)) x gy"

fun Layer_backward :: "Layer \<Rightarrow> real list list \<Rightarrow> real list list \<Rightarrow> Layer \<times> real list list" where
  "Layer_backward (LinearL l) x gy =
     (case Linear_backward l x gy of (l', gx) \<Rightarrow> (LinearL l', gx))"
| "Layer_backward ReLUL x gy = (ReLUL, ReLU_backward x gy)"

text \<open>
  The backward pass visits the layers from the last to the first, each with the input
  the tape recorded for it.
\<close>

fun Sequential_backward ::
    "Layer list \<Rightarrow> real list list list \<Rightarrow> real list list \<Rightarrow> Layer list \<times> real list list" where
  "Sequential_backward (l # ls) (x # tape) g =
     (case Sequential_backward ls tape g of
        (ls', gy) \<Rightarrow> (case Layer_backward l x gy of (l', gx) \<Rightarrow> (l' # ls', gx)))"
| "Sequential_backward ls tape g = (ls, g)"

text \<open>
  \<^verbatim>\<open>optimizer.zero_grad()\<close> sets every gradient that exists to zeros.
\<close>

fun Layer_zero_grad :: "Layer \<Rightarrow> Layer" where
  "Layer_zero_grad (LinearL l) =
     LinearL (l\<lparr>weight_grad := map_option (map (map (\<lambda>g. 0))) (weight_grad l),
                bias_grad := map_option (map (\<lambda>g. 0)) (bias_grad l)\<rparr>)"
| "Layer_zero_grad ReLUL = ReLUL"

definition zero_grad :: "Model \<Rightarrow> Model" where
  "zero_grad m = m\<lparr>layers := map Layer_zero_grad (layers m)\<rparr>"

text \<open>
  \<^verbatim>\<open>torch.optim.SGD(model.parameters(), lr)\<close> with no momentum, dampening or weight
  decay. The optimiser holds the parameters of the model themselves, so its step
  changes the model: every parameter with a gradient becomes \<open>p - lr * p.grad\<close>.
\<close>

fun Layer_step :: "real \<Rightarrow> Layer \<Rightarrow> Layer" where
  "Layer_step lr (LinearL l) =
     LinearL (l\<lparr>weight := (case weight_grad l of
                             None \<Rightarrow> weight l
                           | Some g \<Rightarrow> map2 (map2 (\<lambda>w d. w - lr * d)) (weight l) g),
                bias := (case bias l of
                           None \<Rightarrow> None
                         | Some b \<Rightarrow> (case bias_grad l of
                                        None \<Rightarrow> Some b
                                      | Some g \<Rightarrow> Some (map2 (\<lambda>w d. w - lr * d) b g)))\<rparr>)"
| "Layer_step lr ReLUL = ReLUL"

definition SGD_step :: "real \<Rightarrow> Model \<Rightarrow> Model" where
  "SGD_step lr m = m\<lparr>layers := map (Layer_step lr) (layers m)\<rparr>"

subsection \<open>Training and testing\<close>

text \<open>
  The body of the inner loop of \<^verbatim>\<open>get_test_loss\<close>, for one batch: \<^verbatim>\<open>zero_grad\<close>, the
  forward pass, the loss, \<^verbatim>\<open>backward\<close> and the optimiser's step. It returns the updated
  model and \<^verbatim>\<open>loss.item()\<close>.
\<close>

definition train_step ::
    "real \<Rightarrow> Model \<Rightarrow> real list list \<Rightarrow> real list \<Rightarrow> error + (Model \<times> real)" where
  "train_step lr model x y =
     (let m0 = zero_grad model
      in case Sequential_tape (layers m0) x of
        Inl e \<Rightarrow> Inl e
      | Inr tape \<Rightarrow>
     (let yhat = squeeze (last tape)
      in case MSELoss yhat y of
        Inl e \<Rightarrow> Inl e
      | Inr loss \<Rightarrow>
     (let m1 = m0\<lparr>layers :=
                   fst (Sequential_backward (layers m0) tape (MSELoss_backward yhat y))\<rparr>
      in Inr (SGD_step lr m1, loss))))"

text \<open>
  \<^verbatim>\<open>for x, y in train_loader\<close>: the batches are fetched one at a time, so an error in a
  later batch surfaces after the steps on the earlier ones.
\<close>

fun batch_loop ::
    "AbaloneData \<Rightarrow> real \<Rightarrow> nat list list \<Rightarrow> Model \<times> real \<Rightarrow> error + (Model \<times> real)" where
  "batch_loop ds lr [] (model, train_loss) = Inr (model, train_loss)"
| "batch_loop ds lr (idxs # rest) (model, train_loss) =
     (case fetch ds idxs of
        Inl e \<Rightarrow> Inl e
      | Inr (x, y) \<Rightarrow>
     (case train_step lr model x y of
        Inl e \<Rightarrow> Inl e
      | Inr (model', loss) \<Rightarrow> batch_loop ds lr rest (model', train_loss + loss)))"

text \<open>\<^verbatim>\<open>for epoch in range(epochs)\<close>, with \<^verbatim>\<open>train_loss = 0\<close> at the start of each epoch.\<close>

fun epoch_loop :: "rng \<Rightarrow> DataLoader \<Rightarrow> real \<Rightarrow> nat list \<Rightarrow> Model \<Rightarrow> error + Model" where
  "epoch_loop g loader lr [] model = Inr model"
| "epoch_loop g loader lr (epoch # rest) model =
     (case batch_loop (dataset loader) lr (DataLoader_iter loader (shuffle_key g epoch))
             (model, 0) of
        Inl e \<Rightarrow> Inl e
      | Inr (model', train_loss) \<Rightarrow> epoch_loop g loader lr rest model')"

text \<open>
  \<^verbatim>\<open>get_test_loss(layer_size, epochs)\<close>. The two loaders are globals of the notebook and
  the random source is the library's; both are arguments here. The iterator over the
  test loader is the one made after the \<open>epochs\<close> iterators over the training loader.
\<close>

definition get_test_loss ::
    "rng \<Rightarrow> DataLoader \<Rightarrow> DataLoader \<Rightarrow> nat \<Rightarrow> nat \<Rightarrow> error + (real \<times> nat)" where
  "get_test_loss g train_ld test_ld layer_size epochs =
     (let model0 = Model_init layer_size g
      in case epoch_loop g train_ld (1 / 100) [0..<epochs] model0 of
        Inl e \<Rightarrow> Inl e
      | Inr model \<Rightarrow>
     (case first_batch test_ld (shuffle_key g epochs) of
        Inl e \<Rightarrow> Inl e
      | Inr (x, y) \<Rightarrow>
     (case Model_forward model x of
        Inl e \<Rightarrow> Inl e
      | Inr out \<Rightarrow>
     (case MSELoss (squeeze out) y of
        Inl e \<Rightarrow> Inl e
      | Inr loss \<Rightarrow> Inr (0 + loss, sum_list (parameters_numel model))))))"

subsection \<open>The sweep over hidden widths\<close>

definition epochs :: nat where
  "epochs = 10"

definition num_runs :: nat where
  "num_runs = 10"

text \<open>\<^verbatim>\<open>range(start, stop, step)\<close> for a positive step.\<close>

definition py_range :: "nat \<Rightarrow> nat \<Rightarrow> nat \<Rightarrow> nat list" where
  "py_range start stop step =
     map (\<lambda>i. start + step * i) [0..<(stop + step - 1 - start) div step]"

text \<open>
  Every call of \<^verbatim>\<open>get_test_loss\<close> draws fresh random numbers, so the calls of the sweep
  are numbered: \<open>call k\<close> is the result of the \<open>k\<close>-th call made by the cell (for the
  width at hand). The retry loop
  \<^verbatim>\<open>while test_loss > 15: test_loss, num_param = get_test_loss(layer_size, epochs)\<close>
  may run forever; its result is \<open>None\<close> then. Otherwise it is the exception of a call, or
  the accepted pair together with the number of calls made so far.
\<close>

partial_function (option) retry_loop ::
    "(nat \<Rightarrow> error + (real \<times> nat)) \<Rightarrow> nat \<Rightarrow> real \<times> nat
      \<Rightarrow> (error + ((real \<times> nat) \<times> nat)) option" where
  "retry_loop call k r =
     (if fst r > 15
      then (case call k of
              Inl e \<Rightarrow> Some (Inl e)
            | Inr r' \<Rightarrow> retry_loop call (Suc k) r')
      else Some (Inr (r, k)))"

declare retry_loop.simps [code]

text \<open>
  \<^verbatim>\<open>for run in range(num_runs)\<close>: one call, the retry loop, and
  \<^verbatim>\<open>avg_test_loss += test_loss / num_runs\<close>. The state is the number of calls made, the
  running average and the variable \<^verbatim>\<open>num_param\<close> (unassigned before the first call).
\<close>

fun run_loop ::
    "(nat \<Rightarrow> error + (real \<times> nat)) \<Rightarrow> nat list \<Rightarrow> nat \<times> real \<times> nat option
      \<Rightarrow> (error + (nat \<times> real \<times> nat option)) option" where
  "run_loop call [] st = Some (Inr st)"
| "run_loop call (run # runs) (k, avg_test_loss, num_param) =
     (case call k of
        Inl e \<Rightarrow> Some (Inl e)
      | Inr r \<Rightarrow>
     (case retry_loop call (Suc k) r of
        None \<Rightarrow> None
      | Some (Inl e) \<Rightarrow> Some (Inl e)
      | Some (Inr ((test_loss, num_param'), k')) \<Rightarrow>
          run_loop call runs
            (k', avg_test_loss + test_loss / real num_runs, Some num_param')))"

record sweep_state =
  calls :: nat
  num_param_var :: "nat option"
  test_losses :: "real list"
  num_params :: "nat list"
  printed :: "(nat \<times> nat \<times> real) list"

text \<open>
  \<^verbatim>\<open>for layer_size in range(1, 250, 20)\<close>: the runs of one width, the printed line, and the
  two lists extended by the average and by \<^verbatim>\<open>num_param\<close>.
\<close>

fun width_loop ::
    "(nat \<Rightarrow> nat \<Rightarrow> error + (real \<times> nat)) \<Rightarrow> nat list \<Rightarrow> sweep_state
      \<Rightarrow> (error + sweep_state) option" where
  "width_loop gtl [] st = Some (Inr st)"
| "width_loop gtl (layer_size # rest) st =
     (case run_loop (\<lambda>k. gtl k layer_size) [0..<num_runs] (calls st, 0, num_param_var st) of
        None \<Rightarrow> None
      | Some (Inl e) \<Rightarrow> Some (Inl e)
      | Some (Inr (k', avg_test_loss, np)) \<Rightarrow>
     (case np of
        None \<Rightarrow> Some (Inl NameError)
      | Some num_param \<Rightarrow>
          width_loop gtl rest
            \<lparr>calls = k', num_param_var = Some num_param,
             test_losses = test_losses st @ [avg_test_loss],
             num_params = num_params st @ [num_param],
             printed = printed st @ [(layer_size, num_param, avg_test_loss)]\<rparr>))"

definition sweep :: "(nat \<Rightarrow> nat \<Rightarrow> error + (real \<times> nat)) \<Rightarrow> (error + sweep_state) option" where
  "sweep gtl =
     width_loop gtl (py_range 1 250 20)
       \<lparr>calls = 0, num_param_var = None, test_losses = [], num_params = [], printed = []\<rparr>"

text \<open>
  The cell as the notebook runs it: over the table \<open>csv\<close>, with \<open>rnd k\<close> the random source
  of the \<open>k\<close>-th call of \<^verbatim>\<open>get_test_loss\<close>.
\<close>

definition sweep_cell :: "(nat \<Rightarrow> rng) \<Rightarrow> cell list list \<Rightarrow> (error + sweep_state) option" where
  "sweep_cell rnd csv =
     sweep (\<lambda>k layer_size.
       get_test_loss (rnd k) (train_loader csv) (test_loader csv) layer_size epochs)"

subsection \<open>Reference definitions for the statements about the sweep\<close>

text \<open>
  Among the calls numbered \<open>k, ..., k' - 1\<close>, the test losses the retry loop accepts
  (those not above 15) and the ones it discards, in the order of the calls.
\<close>

definition accepted_losses :: "(nat \<Rightarrow> error + (real \<times> nat)) \<Rightarrow> nat \<Rightarrow> nat \<Rightarrow> real list" where
  "accepted_losses call k k' =
     concat (map (\<lambda>j. case call j of
                         Inl e \<Rightarrow> []
                       | Inr r \<Rightarrow> if fst r > 15 then [] else [fst r]) [k..<k'])"

definition discarded_losses :: "(nat \<Rightarrow> error + (real \<times> nat)) \<Rightarrow> nat \<Rightarrow> nat \<Rightarrow> real list" where
  "discarded_losses call k k' =
     concat (map (\<lambda>j. case call j of
                         Inl e \<Rightarrow> []
                       | Inr r \<Rightarrow> if fst r > 15 then [fst r] else []) [k..<k'])"

definition raised :: "(nat \<Rightarrow> error + (real \<times> nat)) \<Rightarrow> nat \<Rightarrow> nat \<Rightarrow> nat list" where
  "raised call k k' = filter (\<lambda>j. case call j of Inl e \<Rightarrow> True | Inr r \<Rightarrow> False) [k..<k']"

text \<open>
  What the sweep records, stated on the calls: \<open>recorded gtl widths bounds values\<close> holds
  when the calls numbered from one bound to the next are those made for the width at
  that position, none of them raised, exactly \<open>num_runs\<close> of their losses were accepted,
  and the value at that position is the sum of the accepted losses divided by
  \<open>num_runs\<close>.
\<close>

fun recorded ::
    "(nat \<Rightarrow> nat \<Rightarrow> error + (real \<times> nat)) \<Rightarrow> nat list \<Rightarrow> nat list \<Rightarrow> real list \<Rightarrow> bool" where
  "recorded gtl [] [k] [] = True"
| "recorded gtl (w # ws) (k # k' # ks) (v # vs) =
     (k \<le> k'
      \<and> raised (\<lambda>j. gtl j w) k k' = []
      \<and> length (accepted_losses (\<lambda>j. gtl j w) k k') = num_runs
      \<and> length (discarded_losses (\<lambda>j. gtl j w) k k') + num_runs = k' - k
      \<and> v = sum_list (accepted_losses (\<lambda>j. gtl j w) k k') / real num_runs
      \<and> recorded gtl ws (k' # ks) vs)"
| "recorded gtl ws ks vs = False"

text \<open>
  An example of call results: the calls numbered 0, 50 and 100 are above the threshold.
\<close>

definition gtl_example :: "nat \<Rightarrow> nat \<Rightarrow> error + (real \<times> nat)" where
  "gtl_example k layer_size =
     Inr (if k mod 50 = 0 then 20 else real (k mod 4) + 10, 9 * layer_size)"

text \<open>
  Call results with runs of two losses above the threshold in a row (the calls numbered
  0 and 1, 50 and 51, 100 and 101), and the same call results except that the call
  numbered 15 (made for the second width) raises.
\<close>

definition gtl_retry :: "nat \<Rightarrow> nat \<Rightarrow> error + (real \<times> nat)" where
  "gtl_retry k layer_size =
     Inr (if k mod 50 < 2 then 20 else real (k mod 4) + 10, 9 * layer_size)"

definition gtl_raising :: "nat \<Rightarrow> nat \<Rightarrow> error + (real \<times> nat)" where
  "gtl_raising k layer_size = (if k = 15 then Inl StopIteration else gtl_retry k layer_size)"

text \<open>
  Call results in which the first training run reaches a test loss of 10, below the
  threshold, and every later run ends with a test loss of 20.
\<close>

definition calls_stuck :: "nat \<Rightarrow> error + (real \<times> nat)" where
  "calls_stuck k = Inr (if k = 0 then 10 else 20, 9)"

subsection \<open>Reference definitions for the statements about the data and the model\<close>

text \<open>
  The column layout of the abalone table: nine columns, of which all but the first (the
  sex) hold numbers.
\<close>

definition abalone_row :: "cell list \<Rightarrow> bool" where
  "abalone_row row = (length row = 9 \<and> list_all is_Num (tl row))"

text \<open>
  The feature vector of a row: the sex as 0 for \<^verbatim>\<open>'M'\<close> and 1 otherwise, then the seven
  measurements. The label of a row: its ninth column.
\<close>

definition features :: "cell list \<Rightarrow> real list" where
  "features row = (if hd row = Str ''M'' then 0 else 1) # map the_Num (take 7 (tl row))"

definition label :: "cell list \<Rightarrow> real" where
  "label row = the_Num (row ! 8)"

text \<open>The first rows of the table with sex M, F and I.\<close>

definition abalone_example :: AbaloneData where
  "abalone_example =
     \<lparr>data =
        [[Str ''M'', Num (455 / 1000), Num (365 / 1000), Num (95 / 1000), Num (514 / 1000),
          Num (2245 / 10000), Num (101 / 1000), Num (15 / 100), Num 15],
         [Str ''F'', Num (53 / 100), Num (42 / 100), Num (135 / 1000), Num (677 / 1000),
          Num (2565 / 10000), Num (1415 / 10000), Num (21 / 100), Num 9],
         [Str ''I'', Num (33 / 100), Num (255 / 1000), Num (8 / 100), Num (205 / 1000),
          Num (895 / 10000), Num (395 / 10000), Num (55 / 1000), Num 7]]\<rparr>"

text \<open>The mean squared error of a model over the rows \<open>idxs\<close> of a data set.\<close>

definition test_mse :: "Model \<Rightarrow> AbaloneData \<Rightarrow> nat list \<Rightarrow> error + real" where
  "test_mse model ds idxs =
     (case fetch ds idxs of
        Inl e \<Rightarrow> Inl e
      | Inr (x, y) \<Rightarrow>
     (case Model_forward model x of
        Inl e \<Rightarrow> Inl e
      | Inr out \<Rightarrow> MSELoss (squeeze out) y))"

text \<open>
  A matrix of \<open>r\<close> rows and \<open>c\<close> columns; a linear layer whose parameters and gradients
  have the shapes its sizes announce.
\<close>

definition is_matrix :: "nat \<Rightarrow> nat \<Rightarrow> real list list \<Rightarrow> bool" where
  "is_matrix r c m = (length m = r \<and> list_all (\<lambda>row. length row = c) m)"

definition Linear_wf :: "Linear \<Rightarrow> bool" where
  "Linear_wf l =
     (is_matrix (out_features l) (in_features l) (weight l)
      \<and> (case weight_grad l of
            None \<Rightarrow> True
          | Some g \<Rightarrow> is_matrix (out_features l) (in_features l) g)
      \<and> (case bias l of None \<Rightarrow> True | Some b \<Rightarrow> length b = out_features l)
      \<and> (case bias_grad l of None \<Rightarrow> True | Some g \<Rightarrow> length g = out_features l))"

fun Layer_wf :: "Layer \<Rightarrow> bool" where
  "Layer_wf (LinearL l) = Linear_wf l"
| "Layer_wf ReLUL = True"

text \<open>
  The architecture of a model: for each layer, the sizes of a linear layer and whether it
  has a bias, or nothing for a ReLU.
\<close>

fun Layer_kind :: "Layer \<Rightarrow> (nat \<times> nat \<times> bool) option" where
  "Layer_kind (LinearL l) = Some (in_features l, out_features l, bias l \<noteq> None)"
| "Layer_kind ReLUL = None"

definition architecture :: "Model \<Rightarrow> (nat \<times> nat \<times> bool) option list" where
  "architecture m = map Layer_kind (layers m)"

text \<open>
  A small example: two rows of round numbers, loaders over them (training in one batch
  of two, testing in batches of one) and a random source that starts every weight at 1.
\<close>

definition toy_example :: AbaloneData where
  "toy_example =
     \<lparr>data =
        [[Str ''M'', Num 1, Num 0, Num 0, Num 0, Num 0, Num 0, Num 0, Num 2],
         [Str ''F'', Num 0, Num 1, Num 0, Num 0, Num 0, Num 0, Num 0, Num 3]]\<rparr>"

definition rng_example :: rng where
  "rng_example =
     \<lparr>init_w1 = (\<lambda>j k. 1), init_w2 = (\<lambda>j k. 1),
      shuffle_key = (\<lambda>epoch i. real ((i + epoch) mod 2))\<rparr>"

definition train_example :: DataLoader where
  "train_example = \<lparr>dataset = toy_example, batch_size = 2, shuffle = True\<rparr>"

definition test_example :: DataLoader where
  "test_example = \<lparr>dataset = toy_example, batch_size = 1, shuffle = False\<rparr>"

subsection \<open>The training procedure as the specification words it\<close>

text \<open>
  The network \<open>8 \<rightarrow> width \<rightarrow> 1\<close> without bias terms, a rectifier after each of the two linear
  stages, is given by its weights \<open>W1\<close> (one row of 8 numbers per hidden unit) and \<open>w2\<close> (one
  number per hidden unit). Its prediction for a sample \<open>x\<close>:
\<close>

definition two_layer_spec :: "real list list \<Rightarrow> real list \<Rightarrow> real list \<Rightarrow> real" where
  "two_layer_spec W1 w2 x = relu (dot (map (\<lambda>w. relu (dot x w)) W1) w2)"

text \<open>The mean squared error over a batch of samples \<open>xs\<close> with targets \<open>ys\<close>.\<close>

definition mse_spec ::
    "real list list \<Rightarrow> real list \<Rightarrow> real list list \<Rightarrow> real list \<Rightarrow> real" where
  "mse_spec W1 w2 xs ys =
     sum_list (map2 (\<lambda>x y. (two_layer_spec W1 w2 x - y)\<^sup>2) xs ys) / real (length ys)"

text \<open>
  The gradient of that error, by the chain rule (the derivative of the rectifier taken
  as 0 at 0). \<open>delta_spec\<close> is the derivative with respect to the output unit's input for
  one sample of a batch of \<open>n\<close>.
\<close>

definition delta_spec ::
    "real list list \<Rightarrow> real list \<Rightarrow> nat \<Rightarrow> real list \<Rightarrow> real \<Rightarrow> real" where
  "delta_spec W1 w2 n x y =
     (if 0 < dot (map (\<lambda>w. relu (dot x w)) W1) w2
      then 2 * (two_layer_spec W1 w2 x - y) / real n else 0)"

definition grad_w2_spec ::
    "real list list \<Rightarrow> real list \<Rightarrow> real list list \<Rightarrow> real list \<Rightarrow> real list" where
  "grad_w2_spec W1 w2 xs ys =
     map (\<lambda>j. sum_list (map2 (\<lambda>x y. delta_spec W1 w2 (length ys) x y * relu (dot x (W1 ! j)))
                          xs ys))
       [0..<length w2]"

definition grad_W1_spec ::
    "real list list \<Rightarrow> real list \<Rightarrow> real list list \<Rightarrow> real list \<Rightarrow> real list list" where
  "grad_W1_spec W1 w2 xs ys =
     map (\<lambda>j. map (\<lambda>k. sum_list (map2 (\<lambda>x y.
                   (if 0 < dot x (W1 ! j) then delta_spec W1 w2 (length ys) x y * w2 ! j else 0)
                     * x ! k) xs ys))
            [0..<8])
       [0..<length W1]"

text \<open>One step of plain stochastic gradient descent at learning rate \<open>lr\<close> on a batch.\<close>

definition sgd_step_spec ::
    "real \<Rightarrow> real list list \<times> real list \<Rightarrow> real list list \<times> real list
      \<Rightarrow> real list list \<times> real list" where
  "sgd_step_spec lr ws batch =
     (case ws of (W1, w2) \<Rightarrow> case batch of (xs, ys) \<Rightarrow>
        (map2 (map2 (\<lambda>w d. w - lr * d)) W1 (grad_W1_spec W1 w2 xs ys),
         map2 (\<lambda>w d. w - lr * d) w2 (grad_w2_spec W1 w2 xs ys)))"

text \<open>
  The batches a loader presents in one pass: for each run of indices, the feature
  vectors and the labels of those rows.
\<close>

definition batches_spec ::
    "DataLoader \<Rightarrow> (nat \<Rightarrow> real) \<Rightarrow> (real list list \<times> real list) list" where
  "batches_spec ld key =
     map (\<lambda>idxs. (map (\<lambda>i. features (data (dataset ld) ! i)) idxs,
                  map (\<lambda>i. label (data (dataset ld) ! i)) idxs))
       (DataLoader_iter ld key)"

text \<open>
  Training: from the initial weights, \<open>E\<close> passes over the training loader, one step at
  learning rate 0.01 per batch. The result of the whole procedure: the mean squared
  error of the trained network on the held-out batch, and the parameter count \<open>9 W\<close>.
\<close>

definition train_spec :: "rng \<Rightarrow> DataLoader \<Rightarrow> nat \<Rightarrow> nat \<Rightarrow> real list list \<times> real list" where
  "train_spec g train_ld W E =
     fold (\<lambda>epoch ws. fold (\<lambda>batch ws'. sgd_step_spec (1 / 100) ws' batch)
                         (batches_spec train_ld (shuffle_key g epoch)) ws)
       [0..<E]
       (map (\<lambda>j. map (\<lambda>k. init_w1 g j k) [0..<8]) [0..<W], map (\<lambda>k. init_w2 g 0 k) [0..<W])"

definition get_test_loss_spec ::
    "rng \<Rightarrow> DataLoader \<Rightarrow> DataLoader \<Rightarrow> nat \<Rightarrow> nat \<Rightarrow> real \<times> nat" where
  "get_test_loss_spec g train_ld test_ld W E =
     (case train_spec g train_ld W E of (W1, w2) \<Rightarrow>
      case hd (batches_spec test_ld (shuffle_key g E)) of (xs, ys) \<Rightarrow>
        (mse_spec W1 w2 xs ys, 8 * W + W * 1))"

text \<open>
  A model holds the weights \<open>W1\<close>, \<open>w2\<close>: its layers are a linear layer \<open>8 \<rightarrow> length W1\<close> with
  weight \<open>W1\<close>, a ReLU, a linear layer \<open>length W1 \<rightarrow> 1\<close> with weight \<open>[w2]\<close> and a ReLU, both
  linear layers without bias and with parameters and gradients of the right shapes.
\<close>

definition holds_weights :: "Model \<Rightarrow> real list list \<Rightarrow> real list \<Rightarrow> bool" where
  "holds_weights m W1 w2 =
     (\<exists>l1 l2. layers m = [LinearL l1, ReLUL, LinearL l2, ReLUL]
        \<and> Linear_wf l1 \<and> Linear_wf l2
        \<and> in_features l1 = 8 \<and> out_features l1 = length W1 \<and> bias l1 = None
        \<and> in_features l2 = length W1 \<and> out_features l2 = 1 \<and> bias l2 = None
        \<and> weight l1 = W1 \<and> weight l2 = [w2])"

section \<open>Properties of the residual building block\<close>

subsection \<open>Shape lemmas for the layers\<close>

lemma expands_to_refl: "expands_to xs xs"
  by (induction xs) auto

lemma forward_InrD:
  assumes "snd (forward self x) = Inr y"
  shows "\<exists>out1 out2 out4 out5 out6.
     Conv2d_forward (conv1 self) x = Inr out1 \<and>
     BatchNorm2d_forward (bn1 self) out1 = Inr out2 \<and>
     Conv2d_forward (conv2 self) (ReLU_forward out2) = Inr out4 \<and>
     BatchNorm2d_forward (bn2 self) out4 = Inr out5 \<and>
     iadd out5 x = Inr out6 \<and> y = ReLU_forward out6"
  using assms by (auto simp: forward_def Let_def split: sum.splits)

lemma Conv2d_forward_InrE:
  assumes "Conv2d_forward c x = Inr y"
  obtains (batched) B C H W where "shape x = [B, C, H, W]"
      "shape y = [B, out_channels c, conv_out c H, conv_out c W]"
      "kernel_size c \<le> H + 2 * padding c" "kernel_size c \<le> W + 2 * padding c"
  | (unbatched) C H W where "shape x = [C, H, W]"
      "shape y = [out_channels c, conv_out c H, conv_out c W]"
  using assms
  by (auto simp: Conv2d_forward_def split: if_splits list.splits)

lemma BatchNorm2d_forward_InrD:
  assumes "BatchNorm2d_forward b x = Inr y"
  shows "shape y = shape x \<and> length (shape x) = 4"
  using assms by (auto simp: BatchNorm2d_forward_def split: if_splits list.splits)

lemma iadd_InrD: "iadd out x = Inr y \<Longrightarrow> expands_to (rev (shape x)) (rev (shape out))"
  by (auto simp: iadd_def split: if_splits)

lemma unpadded_forward_raises: "snd (forward (BuildingBlock_unpadded n) x) \<noteq> Inr y"
proof
  let ?blk = "BuildingBlock_unpadded n"
  assume "snd (forward ?blk x) = Inr y"
  then obtain out1 out2 out4 out5 out6 where
    c1: "Conv2d_forward (conv1 ?blk) x = Inr out1" and
    b1: "BatchNorm2d_forward (bn1 ?blk) out1 = Inr out2" and
    c2: "Conv2d_forward (conv2 ?blk) (ReLU_forward out2) = Inr out4" and
    b2: "BatchNorm2d_forward (bn2 ?blk) out4 = Inr out5" and
    ad: "iadd out5 x = Inr out6"
    using forward_InrD by blast
  have k: "kernel_size (conv1 ?blk) = 3" "padding (conv1 ?blk) = 0"
      "kernel_size (conv2 ?blk) = 3" "padding (conv2 ?blk) = 0"
    by (simp_all add: BuildingBlock_unpadded_def)
  from b1 have s2: "shape out2 = shape out1" and l1: "length (shape out1) = 4"
    using BatchNorm2d_forward_InrD by blast+
  from b2 have s5: "shape out5 = shape out4" and l4: "length (shape out4) = 4"
    using BatchNorm2d_forward_InrD by blast+
  from c1 l1 obtain B C H W where x: "shape x = [B, C, H, W]"
    and o1: "shape out1 = [B, out_channels (conv1 ?blk),
               conv_out (conv1 ?blk) H, conv_out (conv1 ?blk) W]"
    by (auto elim!: Conv2d_forward_InrE)
  have r: "shape (ReLU_forward out2) = shape out1"
    by (simp add: ReLU_forward_def s2)
  from c2 l4 r o1 have o4: "shape out4 = [B, out_channels (conv2 ?blk),
       conv_out (conv2 ?blk) (conv_out (conv1 ?blk) H),
       conv_out (conv2 ?blk) (conv_out (conv1 ?blk) W)]"
    and kk: "3 \<le> conv_out (conv1 ?blk) W"
    by (auto elim!: Conv2d_forward_InrE simp: k)
  from kk have W: "5 \<le> W"
    by (simp add: conv_out_def k)
  from iadd_InrD[OF ad] have "expands_to [W, H, C, B] (rev (shape out4))"
    by (simp add: x s5)
  then have "W = conv_out (conv2 ?blk) (conv_out (conv1 ?blk) W) \<or> W = 1"
    by (simp add: o4)
  with W show False
    by (simp add: conv_out_def k)
qed

subsection \<open>The padded block\<close>

text \<open>
  Claim C1, as amended. For every input of shape \<open>(B, C, H, W)\<close> whose channel count
  \<open>C\<close> is the block's \<open>num_channels\<close>, with at least one channel, a height and a width of
  at least one, and not exactly one value per channel (\<open>B * H * W \<noteq> 1\<close>; the empty batch
  \<open>B = 0\<close> is included), the padded block's forward pass runs
  convolution, batch norm and ReLU, then convolution and batch norm, prints the shape
  \<open>(B, C, H, W)\<close> after each of the two weight layers, adds the input \<open>x\<close> to the output of
  \<open>bn2\<close>, applies the final ReLU and returns a tensor of shape \<open>(B, C, H, W)\<close>.
\<close>

theorem BuildingBlock_padded_forward:
  assumes "1 \<le> C" and "1 \<le> H" and "1 \<le> W" and "B * H * W \<noteq> 1"
  shows "forward (BuildingBlock_padded C) \<lparr>shape = [B, C, H, W], node = Input\<rparr> =
     ([[B, C, H, W], [B, C, H, W]],
      Inr \<lparr>shape = [B, C, H, W],
           node = ReluOp (AddOp (BnOp ''bn2'' (ConvOp ''conv2''
                    (ReluOp (BnOp ''bn1'' (ConvOp ''conv1'' Input))))) Input)\<rparr>)"
proof -
  note HW = assms(2,3) and one = assms(4)
  let ?x = "\<lparr>shape = [B, C, H, W], node = Input\<rparr>"
  let ?blk = "BuildingBlock_padded C"
  have c1: "Conv2d_forward (conv1 ?blk) ?x =
      Inr \<lparr>shape = [B, C, H, W], node = ConvOp ''conv1'' Input\<rparr>"
    using assms(1) HW by (simp add: BuildingBlock_padded_def Conv2d_forward_def conv_out_def)
  have b1: "BatchNorm2d_forward (bn1 ?blk) \<lparr>shape = [B, C, H, W], node = n\<rparr>
      = Inr \<lparr>shape = [B, C, H, W], node = BnOp ''bn1'' n\<rparr>" for n
    using one by (simp add: BuildingBlock_padded_def BatchNorm2d_forward_def)
  have c2: "Conv2d_forward (conv2 ?blk) \<lparr>shape = [B, C, H, W], node = n\<rparr>
      = Inr \<lparr>shape = [B, C, H, W], node = ConvOp ''conv2'' n\<rparr>" for n
    using assms(1) HW by (simp add: BuildingBlock_padded_def Conv2d_forward_def conv_out_def)
  have b2: "BatchNorm2d_forward (bn2 ?blk) \<lparr>shape = [B, C, H, W], node = n\<rparr>
      = Inr \<lparr>shape = [B, C, H, W], node = BnOp ''bn2'' n\<rparr>" for n
    using one by (simp add: BuildingBlock_padded_def BatchNorm2d_forward_def)
  have ad: "iadd \<lparr>shape = [B, C, H, W], node = n\<rparr> ?x
      = Inr \<lparr>shape = [B, C, H, W], node = AddOp n Input\<rparr>" for n
    by (simp add: iadd_def expands_to_refl)
  show ?thesis
    by (simp add: forward_def c1 b1 c2 b2 ad ReLU_forward_def)
qed

theorem BuildingBlock_padded_forward_witness:
  "forward (BuildingBlock_padded 64) \<lparr>shape = [1, 64, 50, 50], node = Input\<rparr> =
     ([[1, 64, 50, 50], [1, 64, 50, 50]],
      Inr \<lparr>shape = [1, 64, 50, 50],
           node = ReluOp (AddOp (BnOp ''bn2'' (ConvOp ''conv2''
                    (ReluOp (BnOp ''bn1'' (ConvOp ''conv1'' Input))))) Input)\<rparr>)
   \<and> forward (BuildingBlock_padded 64) \<lparr>shape = [0, 64, 50, 50], node = Input\<rparr> =
     ([[0, 64, 50, 50], [0, 64, 50, 50]],
      Inr \<lparr>shape = [0, 64, 50, 50],
           node = ReluOp (AddOp (BnOp ''bn2'' (ConvOp ''conv2''
                    (ReluOp (BnOp ''bn1'' (ConvOp ''conv1'' Input))))) Input)\<rparr>)"
  using BuildingBlock_padded_forward [of 64 50 50 1] BuildingBlock_padded_forward [of 64 50 50 0]
  by simp

text \<open>
  The claim as written (every input of shape \<open>(B, C, H, W)\<close>) fails on a \<open>1 x 64 x 1 x 1\<close>
  input: the first convolution keeps the shape, and \<open>bn1\<close>, in training mode, refuses
  a single value per channel before anything is printed.
\<close>

theorem BuildingBlock_padded_forward_counterexample:
  "forward (BuildingBlock_padded 64) \<lparr>shape = [1, 64, 1, 1], node = Input\<rparr> =
     ([], Inl ValueError_bn_one_value)"
  by (simp add: forward_def BuildingBlock_padded_def Conv2d_forward_def conv_out_def
      BatchNorm2d_forward_def)

subsection \<open>The unpadded block\<close>

text \<open>
  Claim C2. With the unpadded block (3x3 convolutions, no padding) a \<open>1 x 64 x 50 x 50\<close>
  input prints the shapes \<open>1 x 64 x 48 x 48\<close> after the first weight layer and
  \<open>1 x 64 x 46 x 46\<close> after the second, and \<^verbatim>\<open>out += x\<close> then raises the size-mismatch
  error; and the forward pass of the unpadded block returns a value on no input at all.
\<close>

theorem BuildingBlock_unpadded_forward:
  "forward (BuildingBlock_unpadded 64) \<lparr>shape = [1, 64, 50, 50], node = Input\<rparr> =
     ([[1, 64, 48, 48], [1, 64, 46, 46]], Inl RuntimeError_size_mismatch)
   \<and> (\<forall>n x. \<exists>e. snd (forward (BuildingBlock_unpadded n) x) = Inl e)"
proof
  show "forward (BuildingBlock_unpadded 64) \<lparr>shape = [1, 64, 50, 50], node = Input\<rparr> =
     ([[1, 64, 48, 48], [1, 64, 46, 46]], Inl RuntimeError_size_mismatch)"
    by (simp add: forward_def BuildingBlock_unpadded_def Conv2d_forward_def conv_out_def
        BatchNorm2d_forward_def ReLU_forward_def iadd_def)
next
  show "\<forall>n x. \<exists>e. snd (forward (BuildingBlock_unpadded n) x) = Inl e"
  proof (intro allI)
    fix n x
    show "\<exists>e. snd (forward (BuildingBlock_unpadded n) x) = Inl e"
      using unpadded_forward_raises [of n x]
      by (cases "snd (forward (BuildingBlock_unpadded n) x)") auto
  qed
qed

theorem BuildingBlock_unpadded_forward_witness:
  "\<exists>e. snd (forward (BuildingBlock_unpadded 3) \<lparr>shape = [2, 3, 7, 9], node = Input\<rparr>) = Inl e"
  using BuildingBlock_unpadded_forward by blast

section \<open>Properties of the sweep loops\<close>

lemma upt_split: "k \<le> m \<Longrightarrow> m \<le> k' \<Longrightarrow> [k..<k'] = [k..<m] @ [m..<k']"
  using upt_add_eq_append [of k m "k' - m"] by simp

lemma accepted_losses_append:
  "k \<le> m \<Longrightarrow> m \<le> k' \<Longrightarrow>
   accepted_losses call k k' = accepted_losses call k m @ accepted_losses call m k'"
  by (simp add: accepted_losses_def upt_split [of k m k'])

lemma discarded_losses_append:
  "k \<le> m \<Longrightarrow> m \<le> k' \<Longrightarrow>
   discarded_losses call k k' = discarded_losses call k m @ discarded_losses call m k'"
  by (simp add: discarded_losses_def upt_split [of k m k'])

lemma raised_append:
  "k \<le> m \<Longrightarrow> m \<le> k' \<Longrightarrow> raised call k k' = raised call k m @ raised call m k'"
  by (simp add: raised_def upt_split [of k m k'])

lemma accepted_losses_Suc:
  "accepted_losses call k (Suc k) =
     (case call k of Inl e \<Rightarrow> [] | Inr r \<Rightarrow> if fst r > 15 then [] else [fst r])"
  by (simp add: accepted_losses_def)

lemma discarded_losses_Suc:
  "discarded_losses call k (Suc k) =
     (case call k of Inl e \<Rightarrow> [] | Inr r \<Rightarrow> if fst r > 15 then [fst r] else [])"
  by (simp add: discarded_losses_def)

lemma raised_Suc:
  "raised call k (Suc k) = (case call k of Inl e \<Rightarrow> [k] | Inr r \<Rightarrow> [])"
  by (simp add: raised_def split: sum.splits)

lemma accepted_losses_empty [simp]: "accepted_losses call k k = []"
  by (simp add: accepted_losses_def)

lemma discarded_losses_empty [simp]: "discarded_losses call k k = []"
  by (simp add: discarded_losses_def)

lemma raised_empty [simp]: "raised call k k = []"
  by (simp add: raised_def)

lemma retry_loop_Inr:
  assumes "retry_loop call k r = Some res"
  shows "\<forall>r' k'. res = Inr (r', k') \<longrightarrow>
           k \<le> k' \<and> \<not> 15 < fst r'
           \<and> (\<not> 15 < fst r \<longrightarrow> r' = r \<and> k' = k)
           \<and> accepted_losses call k k' = (if 15 < fst r then [fst r'] else [])
           \<and> length (discarded_losses call k k') + (if 15 < fst r then 1 else 0) = k' - k
           \<and> raised call k k' = []"
proof (rule retry_loop.raw_induct [where P = "\<lambda>call k r res. \<forall>r' k'. res = Inr (r', k') \<longrightarrow>
           k \<le> k' \<and> \<not> 15 < fst r'
           \<and> (\<not> 15 < fst r \<longrightarrow> r' = r \<and> k' = k)
           \<and> accepted_losses call k k' = (if 15 < fst r then [fst r'] else [])
           \<and> length (discarded_losses call k k') + (if 15 < fst r then 1 else 0) = k' - k
           \<and> raised call k k' = []", OF _ assms])
  fix retry :: "(nat \<Rightarrow> error + (real \<times> nat)) \<Rightarrow> nat \<Rightarrow> real \<times> nat
      \<Rightarrow> (error + ((real \<times> nat) \<times> nat)) option"
  fix call k r res
  assume ih: "\<And>c k r res. retry c k r = Some res \<Longrightarrow> \<forall>r' k'. res = Inr (r', k') \<longrightarrow>
           k \<le> k' \<and> \<not> 15 < fst r'
           \<and> (\<not> 15 < fst r \<longrightarrow> r' = r \<and> k' = k)
           \<and> accepted_losses c k k' = (if 15 < fst r then [fst r'] else [])
           \<and> length (discarded_losses c k k') + (if 15 < fst r then 1 else 0) = k' - k
           \<and> raised c k k' = []"
  assume eq: "(if 15 < fst r
      then case call k of Inl e \<Rightarrow> Some (Inl e) | Inr r' \<Rightarrow> retry call (Suc k) r'
      else Some (Inr (r, k))) = Some res"
  show "\<forall>r' k'. res = Inr (r', k') \<longrightarrow>
           k \<le> k' \<and> \<not> 15 < fst r'
           \<and> (\<not> 15 < fst r \<longrightarrow> r' = r \<and> k' = k)
           \<and> accepted_losses call k k' = (if 15 < fst r then [fst r'] else [])
           \<and> length (discarded_losses call k k') + (if 15 < fst r then 1 else 0) = k' - k
           \<and> raised call k k' = []"
  proof (cases "15 < fst r")
    case False
    with eq show ?thesis by auto
  next
    case True
    show ?thesis
    proof (intro allI impI)
      fix r' k'
      assume res: "res = Inr (r', k')"
      from True eq res obtain r1 where c: "call k = Inr r1"
        and rec: "retry call (Suc k) r1 = Some (Inr (r', k'))"
        by (auto split: sum.splits)
      from ih [OF rec] have ih':
        "Suc k \<le> k'" "\<not> 15 < fst r'" "\<not> 15 < fst r1 \<longrightarrow> r' = r1 \<and> k' = Suc k"
        "accepted_losses call (Suc k) k' = (if 15 < fst r1 then [fst r'] else [])"
        "length (discarded_losses call (Suc k) k') + (if 15 < fst r1 then 1 else 0) = k' - Suc k"
        "raised call (Suc k) k' = []"
        by auto
      have a: "accepted_losses call k k' =
          accepted_losses call k (Suc k) @ accepted_losses call (Suc k) k'"
        using ih'(1) by (intro accepted_losses_append) auto
      have d: "discarded_losses call k k' =
          discarded_losses call k (Suc k) @ discarded_losses call (Suc k) k'"
        using ih'(1) by (intro discarded_losses_append) auto
      have e: "raised call k k' = raised call k (Suc k) @ raised call (Suc k) k'"
        using ih'(1) by (intro raised_append) auto
      show "k \<le> k' \<and> \<not> 15 < fst r'
           \<and> (\<not> 15 < fst r \<longrightarrow> r' = r \<and> k' = k)
           \<and> accepted_losses call k k' = (if 15 < fst r then [fst r'] else [])
           \<and> length (discarded_losses call k k') + (if 15 < fst r then 1 else 0) = k' - k
           \<and> raised call k k' = []"
        using True ih' c
        by (auto simp: a d e accepted_losses_Suc discarded_losses_Suc raised_Suc)
    qed
  qed
qed

lemma retry_loop_accept: "\<not> 15 < fst r \<Longrightarrow> retry_loop call k r = Some (Inr (r, k))"
  by (simp add: retry_loop.simps [of call k r])

lemma retry_loop_raise:
  "15 < fst r \<Longrightarrow> call k = Inl e \<Longrightarrow> retry_loop call k r = Some (Inl e)"
  by (simp add: retry_loop.simps [of call k r])

lemma retry_loop_again:
  "15 < fst r \<Longrightarrow> call k = Inr r1 \<Longrightarrow> retry_loop call k r = retry_loop call (Suc k) r1"
  by (simp add: retry_loop.simps [of call k r])

lemma raised_first: "k < j \<Longrightarrow> call k = Inl e \<Longrightarrow> raised call k j \<noteq> []"
  using raised_append [of k "Suc k" j call] by (simp add: raised_Suc)

lemma raised_rest: "k < j \<Longrightarrow> raised call k j = [] \<Longrightarrow> raised call (Suc k) j = []"
  using raised_append [of k "Suc k" j call] by simp

lemma retry_loop_terminates:
  assumes "k \<le> j" and "call j = Inr r'" and "\<not> 15 < fst r'"
  shows "\<exists>res. retry_loop call k r = Some res
           \<and> (\<forall>v k'. res = Inr (v, k') \<longrightarrow> k' \<le> Suc j)
           \<and> (raised call k j = [] \<longrightarrow> (\<exists>v k'. res = Inr (v, k')))"
  using assms(1)
proof (induction "j - k" arbitrary: k r)
  case 0
  then have kj: "k = j" by simp
  show ?case
  proof (cases "15 < fst r")
    case False
    then show ?thesis using kj by (simp add: retry_loop_accept)
  next
    case True
    then have "retry_loop call k r = retry_loop call (Suc k) r'"
      using assms(2) kj by (simp add: retry_loop_again)
    then show ?thesis using assms(3) kj by (simp add: retry_loop_accept)
  qed
next
  case (Suc n)
  then have lt: "k < j" by simp
  show ?case
  proof (cases "15 < fst r")
    case False
    then show ?thesis using lt by (simp add: retry_loop_accept)
  next
    case True
    show ?thesis
    proof (cases "call k")
      case (Inl e)
      with True show ?thesis
        using raised_first [of k j call e] lt by (simp add: retry_loop_raise)
    next
      case (Inr r1)
      from Suc(2) Suc(3) have "n = j - Suc k" "Suc k \<le> j" by auto
      from Suc(1) [OF this] obtain res where
        "retry_loop call (Suc k) r1 = Some res"
        "\<forall>v k'. res = Inr (v, k') \<longrightarrow> k' \<le> Suc j"
        "raised call (Suc k) j = [] \<longrightarrow> (\<exists>v k'. res = Inr (v, k'))"
        by blast
      with True Inr show ?thesis
        using raised_rest [of k j call] lt by (auto simp: retry_loop_again)
    qed
  qed
qed

lemma accepted_losses_le: "list_all (\<lambda>v. v \<le> 15) (accepted_losses call k k')"
  by (induction k' ) (auto simp: accepted_losses_def list_all_iff split: sum.splits)

lemma sum_list_le_const:
  fixes xs :: "real list"
  shows "list_all (\<lambda>v. v \<le> c) xs \<Longrightarrow> sum_list xs \<le> c * real (length xs)"
  by (induction xs) (auto simp: algebra_simps)

lemma run_loop_Inr:
  "run_loop call runs (k, avg, np) = Some (Inr (k', avg', np')) \<Longrightarrow>
     k \<le> k' \<and> raised call k k' = []
     \<and> length (accepted_losses call k k') = length runs
     \<and> length (discarded_losses call k k') + length runs = k' - k
     \<and> avg' = avg + sum_list (accepted_losses call k k') / real num_runs"
proof (induction runs arbitrary: k avg np)
  case Nil
  then show ?case by simp
next
  case (Cons run runs)
  from Cons.prems obtain r where c: "call k = Inr r"
    by (auto split: sum.splits)
  from Cons.prems c obtain tl n k1 where
    rt: "retry_loop call (Suc k) r = Some (Inr ((tl, n), k1))" and
    rest: "run_loop call runs (k1, avg + tl / real num_runs, Some n) = Some (Inr (k', avg', np'))"
    by (auto split: option.splits sum.splits prod.splits)
  from retry_loop_Inr [OF rt] have r1:
    "Suc k \<le> k1" "\<not> 15 < tl" "\<not> 15 < fst r \<longrightarrow> (tl, n) = r \<and> k1 = Suc k"
    "accepted_losses call (Suc k) k1 = (if 15 < fst r then [tl] else [])"
    "length (discarded_losses call (Suc k) k1) + (if 15 < fst r then 1 else 0) = k1 - Suc k"
    "raised call (Suc k) k1 = []"
    by auto
  from Cons.IH [OF rest] have ih:
    "k1 \<le> k'" "raised call k1 k' = []"
    "length (accepted_losses call k1 k') = length runs"
    "length (discarded_losses call k1 k') + length runs = k' - k1"
    "avg' = avg + tl / real num_runs + sum_list (accepted_losses call k1 k') / real num_runs"
    by auto
  have a1: "accepted_losses call k k1 = [tl]"
    using r1 c accepted_losses_append [of k "Suc k" k1 call]
    by (auto simp: accepted_losses_Suc)
  have d1: "length (discarded_losses call k k1) + 1 = k1 - k"
    using r1 c discarded_losses_append [of k "Suc k" k1 call]
    by (auto simp: discarded_losses_Suc)
  have e1: "raised call k k1 = []"
    using r1 c raised_append [of k "Suc k" k1 call]
    by (auto simp: raised_Suc)
  have kk: "k \<le> k1" "k1 \<le> k'" using r1(1) ih(1) by auto
  have a: "accepted_losses call k k' = tl # accepted_losses call k1 k'"
    using accepted_losses_append [OF kk, of call] a1 by simp
  have d: "length (discarded_losses call k k') + length (run # runs) = k' - k"
    using discarded_losses_append [OF kk, of call] d1 ih(4) kk r1(1) by simp
  have e: "raised call k k' = []"
    using raised_append [OF kk, of call] e1 ih(2) by simp
  show ?case
    using kk a d e ih(3,5)
    by (simp add: add_divide_distrib)
qed

lemma width_loop_recorded:
  "width_loop gtl ws st = Some (Inr st') \<Longrightarrow>
     \<exists>ks vs. recorded gtl ws (calls st # ks) vs \<and> test_losses st' = test_losses st @ vs
       \<and> last (calls st # ks) = calls st'"
proof (induction ws arbitrary: st)
  case Nil
  then have "recorded gtl [] (calls st # []) [] \<and> test_losses st' = test_losses st @ []
      \<and> last (calls st # []) = calls st'"
    by simp
  then show ?case by blast
next
  case (Cons w ws)
  from Cons.prems obtain k1 avg n where
    rl: "run_loop (\<lambda>k. gtl k w) [0..<num_runs] (calls st, 0, num_param_var st)
          = Some (Inr (k1, avg, Some n))" and
    rest: "width_loop gtl ws
            \<lparr>calls = k1, num_param_var = Some n,
             test_losses = test_losses st @ [avg],
             num_params = num_params st @ [n],
             printed = printed st @ [(w, n, avg)]\<rparr> = Some (Inr st')"
    by (auto split: option.splits sum.splits prod.splits)
  from Cons.IH [OF rest] obtain ks vs where
    ih: "recorded gtl ws (k1 # ks) vs" "test_losses st' = (test_losses st @ [avg]) @ vs"
      "last (k1 # ks) = calls st'"
    by auto
  from run_loop_Inr [OF rl] have r:
    "calls st \<le> k1" "raised (\<lambda>k. gtl k w) (calls st) k1 = []"
    "length (accepted_losses (\<lambda>k. gtl k w) (calls st) k1) = num_runs"
    "length (discarded_losses (\<lambda>k. gtl k w) (calls st) k1) + num_runs = k1 - calls st"
    "avg = sum_list (accepted_losses (\<lambda>k. gtl k w) (calls st) k1) / real num_runs"
    by auto
  have "recorded gtl (w # ws) (calls st # k1 # ks) (avg # vs)
      \<and> test_losses st' = test_losses st @ (avg # vs)
      \<and> last (calls st # k1 # ks) = calls st'"
    using ih r by simp
  then show ?case by blast
qed

lemma recorded_bounded:
  "recorded gtl ws ks vs \<Longrightarrow> length vs = length ws \<and> list_all (\<lambda>v. v \<le> 15) vs"
proof (induction gtl ws ks vs rule: recorded.induct)
  case (2 gtl w ws k k' ks v vs)
  let ?acc = "accepted_losses (\<lambda>j. gtl j w) k k'"
  from 2 have ih: "length vs = length ws \<and> list_all (\<lambda>v. v \<le> 15) vs" by simp
  from 2(2) have v: "v = sum_list ?acc / real num_runs" and l: "length ?acc = num_runs"
    by simp_all
  have "sum_list ?acc \<le> 15 * real (length ?acc)"
    by (rule sum_list_le_const) (rule accepted_losses_le)
  then have "v \<le> 15" using v l by (simp add: num_runs_def)
  then show ?case using ih by simp
qed simp_all

lemma length_py_range: "length (py_range 1 250 20) = 13"
  by (simp add: py_range_def)

lemma sweep_recorded_aux:
  assumes "sweep gtl = Some (Inr st)"
  shows "\<exists>ks. recorded gtl (py_range 1 250 20) (0 # ks) (test_losses st)
            \<and> last (0 # ks) = calls st"
proof -
  let ?st0 = "\<lparr>calls = 0, num_param_var = None, test_losses = [], num_params = [],
      printed = []\<rparr>"
  from assms have "width_loop gtl (py_range 1 250 20) ?st0 = Some (Inr st)"
    by (simp add: sweep_def)
  from width_loop_recorded [OF this] show ?thesis
    by simp
qed


lemma sweep_example:
  "sweep gtl_example =
     Some (Inr \<lparr>calls = 133, num_param_var = Some 2169,
       test_losses =
         [23 / 2, 23 / 2, 23 / 2, 23 / 2, 58 / 5, 113 / 10, 117 / 10,
          113 / 10, 117 / 10, 23 / 2, 23 / 2, 23 / 2, 23 / 2],
       num_params =
         [9, 189, 369, 549, 729, 909, 1089, 1269, 1449, 1629, 1809, 1989, 2169],
       printed =
         [(1, 9, 23 / 2), (21, 189, 23 / 2), (41, 369, 23 / 2),
          (61, 549, 23 / 2), (81, 729, 58 / 5), (101, 909, 113 / 10),
          (121, 1089, 117 / 10), (141, 1269, 113 / 10),
          (161, 1449, 117 / 10), (181, 1629, 23 / 2),
          (201, 1809, 23 / 2), (221, 1989, 23 / 2),
          (241, 2169, 23 / 2)]\<rparr>)"
  by code_simp

lemma retry_loop_Inr_last:
  assumes "retry_loop call k r = Some res"
  shows "\<forall>r' k'. res = Inr (r', k') \<longrightarrow> (\<not> 15 < fst r \<longrightarrow> r' = r \<and> k' = k) \<and> (15 < fst r \<longrightarrow> k < k' \<and> call (k' - 1) = Inr r')"
proof (rule retry_loop.raw_induct [where P = "\<lambda>call k r res. \<forall>r' k'. res = Inr (r', k') \<longrightarrow>
           (\<not> 15 < fst r \<longrightarrow> r' = r \<and> k' = k) \<and> (15 < fst r \<longrightarrow> k < k' \<and> call (k' - 1) = Inr r')", OF _ assms])
  fix retry :: "(nat \<Rightarrow> error + (real \<times> nat)) \<Rightarrow> nat \<Rightarrow> real \<times> nat
      \<Rightarrow> (error + ((real \<times> nat) \<times> nat)) option"
  fix call k r res
  assume ih: "\<And>c k r res. retry c k r = Some res \<Longrightarrow> \<forall>r' k'. res = Inr (r', k') \<longrightarrow>
           (\<not> 15 < fst r \<longrightarrow> r' = r \<and> k' = k) \<and> (15 < fst r \<longrightarrow> k < k' \<and> c (k' - 1) = Inr r')"
  assume eq: "(if 15 < fst r
      then case call k of Inl e \<Rightarrow> Some (Inl e) | Inr r' \<Rightarrow> retry call (Suc k) r'
      else Some (Inr (r, k))) = Some res"
  show "\<forall>r' k'. res = Inr (r', k') \<longrightarrow> (\<not> 15 < fst r \<longrightarrow> r' = r \<and> k' = k) \<and> (15 < fst r \<longrightarrow> k < k' \<and> call (k' - 1) = Inr r')"
  proof (cases "15 < fst r")
    case False
    with eq show ?thesis by auto
  next
    case True
    show ?thesis
    proof (intro allI impI)
      fix r' k'
      assume res: "res = Inr (r', k')"
      from True eq res obtain r1 where c: "call k = Inr r1"
        and rec: "retry call (Suc k) r1 = Some (Inr (r', k'))"
        by (auto split: sum.splits)
      from ih [OF rec] have ih':
        "\<not> 15 < fst r1 \<longrightarrow> r' = r1 \<and> k' = Suc k"
        "15 < fst r1 \<longrightarrow> Suc k < k' \<and> call (k' - 1) = Inr r'"
        by auto
      show "(\<not> 15 < fst r \<longrightarrow> r' = r \<and> k' = k)
          \<and> (15 < fst r \<longrightarrow> k < k' \<and> call (k' - 1) = Inr r')"
        using True ih' c by (cases "15 < fst r1") auto
    qed
  qed
qed


lemma retry_loop_Inl:
  assumes "retry_loop call k r = Some res"
  shows "\<forall>e. res = Inl e \<longrightarrow>
           15 < fst r \<and> (\<exists>i. k \<le> i \<and> call i = Inl e \<and> raised call k i = []
              \<and> accepted_losses call k i = [])"
proof (rule retry_loop.raw_induct [where P = "\<lambda>call k r res. \<forall>e. res = Inl e \<longrightarrow>
           15 < fst r \<and> (\<exists>i. k \<le> i \<and> call i = Inl e \<and> raised call k i = []
              \<and> accepted_losses call k i = [])", OF _ assms])
  fix retry :: "(nat \<Rightarrow> error + (real \<times> nat)) \<Rightarrow> nat \<Rightarrow> real \<times> nat
      \<Rightarrow> (error + ((real \<times> nat) \<times> nat)) option"
  fix call k r res
  assume ih: "\<And>c k r res. retry c k r = Some res \<Longrightarrow> \<forall>e. res = Inl e \<longrightarrow>
           15 < fst r \<and> (\<exists>i. k \<le> i \<and> c i = Inl e \<and> raised c k i = []
              \<and> accepted_losses c k i = [])"
  assume eq: "(if 15 < fst r
      then case call k of Inl e \<Rightarrow> Some (Inl e) | Inr r' \<Rightarrow> retry call (Suc k) r'
      else Some (Inr (r, k))) = Some res"
  show "\<forall>e. res = Inl e \<longrightarrow>
           15 < fst r \<and> (\<exists>i. k \<le> i \<and> call i = Inl e \<and> raised call k i = []
              \<and> accepted_losses call k i = [])"
  proof (intro allI impI)
    fix e
    assume res: "res = Inl e"
    with eq have True: "15 < fst r" by (auto split: if_splits)
    show "15 < fst r \<and> (\<exists>i. k \<le> i \<and> call i = Inl e \<and> raised call k i = []
              \<and> accepted_losses call k i = [])"
    proof (cases "call k")
      case (Inl e')
      with eq True res have "e' = e" by simp
      with Inl have "k \<le> k \<and> call k = Inl e \<and> raised call k k = []
          \<and> accepted_losses call k k = []"
        by simp
      with True show ?thesis by blast
    next
      case (Inr r1)
      with eq True res have rec: "retry call (Suc k) r1 = Some (Inl e)" by simp
      from ih [OF rec] obtain i where i: "15 < fst r1" "Suc k \<le> i" "call i = Inl e"
        "raised call (Suc k) i = []" "accepted_losses call (Suc k) i = []"
        by auto
      have "raised call k i = raised call k (Suc k) @ raised call (Suc k) i"
        using i(2) by (intro raised_append) auto
      then have a: "raised call k i = []"
        using i(4) Inr by (simp add: raised_Suc)
      have "accepted_losses call k i =
          accepted_losses call k (Suc k) @ accepted_losses call (Suc k) i"
        using i(2) by (intro accepted_losses_append) auto
      then have b: "accepted_losses call k i = []"
        using i(1,5) Inr by (simp add: accepted_losses_Suc)
      from i(2) have "k \<le> i" by simp
      with i(3) a b True show ?thesis by blast
    qed
  qed
qed

lemma retry_loop_diverges:
  assumes "retry_loop call k r = Some res"
  shows "\<not> 15 < fst r \<or> (\<exists>j. k \<le> j \<and> (\<forall>r'. call j = Inr r' \<longrightarrow> \<not> 15 < fst r'))"
proof (rule retry_loop.raw_induct [where P = "\<lambda>call k r res.
     \<not> 15 < fst r \<or> (\<exists>j. k \<le> j \<and> (\<forall>r'. call j = Inr r' \<longrightarrow> \<not> 15 < fst r'))", OF _ assms])
  fix retry :: "(nat \<Rightarrow> error + (real \<times> nat)) \<Rightarrow> nat \<Rightarrow> real \<times> nat
      \<Rightarrow> (error + ((real \<times> nat) \<times> nat)) option"
  fix call k r res
  assume ih: "\<And>c k r res. retry c k r = Some res \<Longrightarrow>
     \<not> 15 < fst r \<or> (\<exists>j. k \<le> j \<and> (\<forall>r'. c j = Inr r' \<longrightarrow> \<not> 15 < fst r'))"
  assume eq: "(if 15 < fst r
      then case call k of Inl e \<Rightarrow> Some (Inl e) | Inr r' \<Rightarrow> retry call (Suc k) r'
      else Some (Inr (r, k))) = Some res"
  show "\<not> 15 < fst r \<or> (\<exists>j. k \<le> j \<and> (\<forall>r'. call j = Inr r' \<longrightarrow> \<not> 15 < fst r'))"
  proof (cases "15 < fst r")
    case False
    then show ?thesis by simp
  next
    case True
    show ?thesis
    proof (cases "call k")
      case (Inl e)
      then have "k \<le> k \<and> (\<forall>r'. call k = Inr r' \<longrightarrow> \<not> 15 < fst r')" by simp
      then show ?thesis by blast
    next
      case (Inr r1)
      with eq True have rec: "retry call (Suc k) r1 = Some res" by simp
      show ?thesis
      proof (cases "15 < fst r1")
        case False
        with Inr have "k \<le> k \<and> (\<forall>r'. call k = Inr r' \<longrightarrow> \<not> 15 < fst r')" by simp
        then show ?thesis by blast
      next
        case True
        with ih [OF rec] obtain j where "Suc k \<le> j" "\<forall>r'. call j = Inr r' \<longrightarrow> \<not> 15 < fst r'"
          by auto
        then have "k \<le> j \<and> (\<forall>r'. call j = Inr r' \<longrightarrow> \<not> 15 < fst r')" by simp
        then show ?thesis by blast
      qed
    qed
  qed
qed

lemma retry_loop_None:
  assumes "15 < fst r" and "\<And>j. k \<le> j \<Longrightarrow> \<exists>r'. call j = Inr r' \<and> 15 < fst r'"
  shows "retry_loop call k r = None"
proof (cases "retry_loop call k r")
  case None
  then show ?thesis .
next
  case (Some res)
  from retry_loop_diverges [OF Some] assms(1) obtain j where
    "k \<le> j" "\<forall>r'. call j = Inr r' \<longrightarrow> \<not> 15 < fst r'"
    by auto
  with assms(2) [of j] show ?thesis by auto
qed

lemma run_loop_np:
  "run_loop call runs (k, avg, np) = Some (Inr (k', avg', np')) \<Longrightarrow>
     runs \<noteq> [] \<or> np \<noteq> None \<Longrightarrow> np' \<noteq> None"
proof (induction runs arbitrary: k avg np)
  case Nil
  then show ?case by simp
next
  case (Cons run runs)
  from Cons.prems(1) obtain r where c: "call k = Inr r"
    by (auto split: sum.splits)
  from Cons.prems(1) c obtain loss n k1 where
    rest: "run_loop call runs (k1, avg + loss / real num_runs, Some n) = Some (Inr (k', avg', np'))"
    by (auto split: option.splits sum.splits prod.splits)
  from Cons.IH [OF rest] show ?case by simp
qed

lemma run_loop_Inl:
  "run_loop call runs (k, avg, np) = Some (Inl e) \<Longrightarrow> \<exists>j. k \<le> j \<and> call j = Inl e"
proof (induction runs arbitrary: k avg np)
  case Nil
  then show ?case by simp
next
  case (Cons run runs)
  show ?case
  proof (cases "call k")
    case (Inl e')
    with Cons.prems have "k \<le> k \<and> call k = Inl e" by simp
    then show ?thesis by blast
  next
    case (Inr r)
    show ?thesis
    proof (cases "retry_loop call (Suc k) r")
      case None
      with Cons.prems Inr show ?thesis by simp
    next
      case (Some res)
      show ?thesis
      proof (cases res)
        case (Inl e')
        with Cons.prems Inr Some have "e' = e" by simp
        with retry_loop_Inl [OF Some] Inl obtain i where "Suc k \<le> i" "call i = Inl e"
          by auto
        then have "k \<le> i \<and> call i = Inl e" by simp
        then show ?thesis by blast
      next
        case (Inr v)
        obtain loss n k1 where v: "v = ((loss, n), k1)" by (cases v) auto
        from Cons.prems \<open>call k = Inr r\<close> Some Inr v have
          rest: "run_loop call runs (k1, avg + loss / real num_runs, Some n) = Some (Inl e)"
          by simp
        from retry_loop_Inr [OF Some] Inr v have "Suc k \<le> k1" by auto
        with Cons.IH [OF rest] obtain j where "k1 \<le> j" "call j = Inl e" by auto
        with \<open>Suc k \<le> k1\<close> have "k \<le> j \<and> call j = Inl e" by simp
        then show ?thesis by blast
      qed
    qed
  qed
qed

lemma run_loop_returns:
  assumes nr: "\<And>k. \<exists>r. call k = Inr r"
    and reach: "\<And>k. \<exists>j r. k \<le> j \<and> call j = Inr r \<and> \<not> 15 < fst r"
  shows "\<exists>k' avg' np'. run_loop call runs (k, avg, np) = Some (Inr (k', avg', np'))"
proof (induction runs arbitrary: k avg np)
  case Nil
  show ?case by simp
next
  case (Cons run runs)
  from nr [of k] obtain r where c: "call k = Inr r" by blast
  from reach [of "Suc k"] obtain j r' where j: "Suc k \<le> j" "call j = Inr r'" "\<not> 15 < fst r'"
    by blast
  have "\<And>i. (case call i of Inl e \<Rightarrow> True | Inr r \<Rightarrow> False) = False"
    using nr by (metis old.sum.simps(6))
  then have "raised call (Suc k) j = []"
    by (simp add: raised_def)
  with retry_loop_terminates [of "Suc k" j call r' r] j obtain v k1 where
    rt: "retry_loop call (Suc k) r = Some (Inr (v, k1))"
    by auto
  obtain loss n where v: "v = (loss, n)" by (cases v) auto
  from Cons.IH [of k1 "avg + loss / real num_runs" "Some n"] c rt v show ?case
    by simp
qed

lemma width_loop_Inl:
  "width_loop gtl ws st = Some (Inl e) \<Longrightarrow> \<exists>k w. w \<in> set ws \<and> gtl k w = Inl e"
proof (induction ws arbitrary: st)
  case Nil
  then show ?case by simp
next
  case (Cons w ws)
  let ?rl = "run_loop (\<lambda>k. gtl k w) [0..<num_runs] (calls st, 0, num_param_var st)"
  show ?case
  proof (cases ?rl)
    case None
    with Cons.prems show ?thesis by simp
  next
    case (Some res)
    show ?thesis
    proof (cases res)
      case (Inl e')
      with Cons.prems Some have "e' = e" by simp
      with run_loop_Inl [of "\<lambda>k. gtl k w" "[0..<num_runs]" "calls st" 0 "num_param_var st" e]
        Some Inl obtain j where "gtl j w = Inl e"
        by auto
      then have "w \<in> set (w # ws) \<and> gtl j w = Inl e" by simp
      then show ?thesis by blast
    next
      case (Inr v)
      obtain k1 avg np where v: "v = (k1, avg, np)" by (cases v) auto
      have "[0..<num_runs] \<noteq> []" by (simp add: num_runs_def)
      with run_loop_np [of "\<lambda>k. gtl k w" "[0..<num_runs]" "calls st" 0 "num_param_var st" k1 avg np]
        Some Inr v obtain n where np: "np = Some n"
        by auto
      from Cons.prems Some Inr v np have
        "width_loop gtl ws
            \<lparr>calls = k1, num_param_var = Some n,
             test_losses = test_losses st @ [avg],
             num_params = num_params st @ [n],
             printed = printed st @ [(w, n, avg)]\<rparr> = Some (Inl e)"
        by simp
      from Cons.IH [OF this] obtain k w' where "w' \<in> set ws" "gtl k w' = Inl e" by blast
      then have "w' \<in> set (w # ws) \<and> gtl k w' = Inl e" by simp
      then show ?thesis by blast
    qed
  qed
qed

lemma width_loop_returns:
  assumes nr: "\<And>w k. w \<in> set ws \<Longrightarrow> \<exists>r. gtl k w = Inr r"
    and reach: "\<And>w k. w \<in> set ws \<Longrightarrow> \<exists>j r. k \<le> j \<and> gtl j w = Inr r \<and> \<not> 15 < fst r"
  shows "\<exists>st'. width_loop gtl ws st = Some (Inr st')"
  using assms
proof (induction ws arbitrary: st)
  case Nil
  show ?case by simp
next
  case (Cons w ws)
  have "\<exists>k' avg' np'. run_loop (\<lambda>k. gtl k w) [0..<num_runs] (calls st, 0, num_param_var st)
      = Some (Inr (k', avg', np'))"
    by (rule run_loop_returns) (use Cons.prems in auto)
  then obtain k1 avg np where
    rl: "run_loop (\<lambda>k. gtl k w) [0..<num_runs] (calls st, 0, num_param_var st)
      = Some (Inr (k1, avg, np))"
    by blast
  have "[0..<num_runs] \<noteq> []" by (simp add: num_runs_def)
  with run_loop_np [OF rl] obtain n where np: "np = Some n" by auto
  have "\<exists>st'. width_loop gtl ws \<lparr>calls = k1, num_param_var = Some n,
             test_losses = test_losses st @ [avg],
             num_params = num_params st @ [n],
             printed = printed st @ [(w, n, avg)]\<rparr> = Some (Inr st')"
    by (rule Cons.IH) (use Cons.prems in auto)
  with rl np show ?case by simp
qed



lemma retry_loop_Some:
  assumes "k \<le> j" and "\<forall>r'. call j = Inr r' \<longrightarrow> \<not> 15 < fst r'"
  shows "\<exists>res. retry_loop call k r = Some res"
  using assms(1)
proof (induction "j - k" arbitrary: k r)
  case 0
  then have kj: "k = j" by simp
  show ?case
  proof (cases "15 < fst r")
    case False
    then show ?thesis by (simp add: retry_loop_accept)
  next
    case True
    show ?thesis
    proof (cases "call k")
      case (Inl e)
      with True show ?thesis by (simp add: retry_loop_raise)
    next
      case (Inr r1)
      with assms(2) kj have "\<not> 15 < fst r1" by blast
      with True Inr show ?thesis by (simp add: retry_loop_again retry_loop_accept)
    qed
  qed
next
  case (Suc n)
  show ?case
  proof (cases "15 < fst r")
    case False
    then show ?thesis by (simp add: retry_loop_accept)
  next
    case True
    show ?thesis
    proof (cases "call k")
      case (Inl e)
      with True show ?thesis by (simp add: retry_loop_raise)
    next
      case (Inr r1)
      from Suc(2) Suc(3) have "n = j - Suc k" "Suc k \<le> j" by auto
      from Suc(1) [OF this] True Inr show ?thesis by (simp add: retry_loop_again)
    qed
  qed
qed

lemma retry_loop_None_iff:
  "retry_loop call k r = None \<longleftrightarrow>
     15 < fst r \<and> (\<forall>j\<ge>k. \<exists>r'. call j = Inr r' \<and> 15 < fst r')"
proof
  assume n: "retry_loop call k r = None"
  have a: "15 < fst r"
    using n retry_loop_accept [of r call k] by (cases "15 < fst r") auto
  have b: "\<exists>r'. call j = Inr r' \<and> 15 < fst r'" if "k \<le> j" for j
  proof (rule ccontr)
    assume "\<not> (\<exists>r'. call j = Inr r' \<and> 15 < fst r')"
    then have "\<forall>r'. call j = Inr r' \<longrightarrow> \<not> 15 < fst r'" by blast
    with retry_loop_Some [of k j call r] that n show False by simp
  qed
  from a b show "15 < fst r \<and> (\<forall>j\<ge>k. \<exists>r'. call j = Inr r' \<and> 15 < fst r')" by blast
next
  assume "15 < fst r \<and> (\<forall>j\<ge>k. \<exists>r'. call j = Inr r' \<and> 15 < fst r')"
  then show "retry_loop call k r = None"
    by (intro retry_loop_None) auto
qed

lemma run_loop_None:
  "run_loop call runs (k, avg, np) = None \<Longrightarrow>
     \<exists>k0. \<forall>j\<ge>k0. \<exists>r'. call j = Inr r' \<and> 15 < fst r'"
proof (induction runs arbitrary: k avg np)
  case Nil
  then show ?case by simp
next
  case (Cons run runs)
  from Cons.prems obtain r where c: "call k = Inr r"
    by (auto split: sum.splits)
  show ?case
  proof (cases "retry_loop call (Suc k) r")
    case None
    then show ?thesis unfolding retry_loop_None_iff by blast
  next
    case (Some res)
    with Cons.prems c obtain loss n k1 where
      "run_loop call runs (k1, avg + loss / real num_runs, Some n) = None"
      by (auto split: sum.splits prod.splits)
    then show ?thesis by (rule Cons.IH)
  qed
qed

lemma width_loop_None:
  "width_loop gtl ws st = None \<Longrightarrow>
     \<exists>w k0. w \<in> set ws \<and> (\<forall>j\<ge>k0. \<exists>r'. gtl j w = Inr r' \<and> 15 < fst r')"
proof (induction ws arbitrary: st)
  case Nil
  then show ?case by simp
next
  case (Cons w ws)
  let ?rl = "run_loop (\<lambda>k. gtl k w) [0..<num_runs] (calls st, 0, num_param_var st)"
  show ?case
  proof (cases ?rl)
    case None
    from run_loop_None [OF None] obtain k0 where
      "\<forall>j\<ge>k0. \<exists>r'. gtl j w = Inr r' \<and> 15 < fst r'"
      by blast
    then have "w \<in> set (w # ws) \<and> (\<forall>j\<ge>k0. \<exists>r'. gtl j w = Inr r' \<and> 15 < fst r')"
      by simp
    then show ?thesis by blast
  next
    case (Some res)
    with Cons.prems obtain st1 where "width_loop gtl ws st1 = None"
      by (auto split: sum.splits prod.splits option.splits)
    from Cons.IH [OF this] obtain w' k0 where
      "w' \<in> set ws" "\<forall>j\<ge>k0. \<exists>r'. gtl j w' = Inr r' \<and> 15 < fst r'"
      by blast
    then have "w' \<in> set (w # ws) \<and> (\<forall>j\<ge>k0. \<exists>r'. gtl j w' = Inr r' \<and> 15 < fst r')"
      by simp
    then show ?thesis by blast
  qed
qed

lemma run_loop_calls_stuck: "run_loop calls_stuck [0..<num_runs] (0, 0, np) = None"
proof -
  have a: "calls_stuck 0 = Inr (10, 9)" "calls_stuck (Suc 0) = Inr (20, 9)"
    by (simp_all add: calls_stuck_def)
  have b: "retry_loop calls_stuck (Suc (Suc 0)) (20, 9) = None"
    by (rule retry_loop_None) (simp_all add: calls_stuck_def)
  have c: "retry_loop calls_stuck (Suc 0) (10, 9) = Some (Inr ((10, 9), Suc 0))"
    by (simp add: retry_loop_accept)
  have "[0..<num_runs] = 0 # Suc 0 # [2..<num_runs]"
    by (simp add: num_runs_def upt_conv_Cons)
  then show ?thesis
    using a b c by simp
qed

lemma sweep_stuck: "sweep (\<lambda>k layer_size. calls_stuck k) = None"
proof -
  have "py_range 1 250 20 = 1 # map (\<lambda>i. 1 + 20 * i) [1..<13]"
    by (simp add: py_range_def upt_conv_Cons)
  then show ?thesis
    by (simp add: sweep_def run_loop_calls_stuck)
qed

lemma sweep_retry_example:
  "sweep gtl_retry =
     Some (Inr \<lparr>calls = 136, num_param_var = Some 2169,
       test_losses =
         [117 / 10, 113 / 10, 117 / 10, 113 / 10, 113 / 10, 117 / 10,
          113 / 10, 117 / 10, 113 / 10, 117 / 10, 117 / 10, 113 / 10,
          117 / 10],
       num_params =
         [9, 189, 369, 549, 729, 909, 1089, 1269, 1449, 1629, 1809, 1989, 2169],
       printed =
         [(1, 9, 117 / 10), (21, 189, 113 / 10), (41, 369, 117 / 10),
          (61, 549, 113 / 10), (81, 729, 113 / 10), (101, 909, 117 / 10),
          (121, 1089, 113 / 10), (141, 1269, 117 / 10),
          (161, 1449, 113 / 10), (181, 1629, 117 / 10),
          (201, 1809, 117 / 10), (221, 1989, 113 / 10),
          (241, 2169, 117 / 10)]\<rparr>)"
  by code_simp

lemma sweep_raising: "sweep gtl_raising = Some (Inl StopIteration)"
  by code_simp

lemma gtl_retry_reach:
  "\<exists>j r. k \<le> j \<and> gtl_retry j w = Inr r \<and> fst r \<le> 15"
proof -
  let ?j = "50 * k + 2"
  have m: "?j mod 50 = 2" by (simp only: mod_mult_self4, simp)
  have le: "k \<le> ?j" by simp
  have g: "gtl_retry ?j w = Inr (real (?j mod 4) + 10, 9 * w)"
    unfolding gtl_retry_def m by simp
  have "?j mod 4 < 4" by (rule mod_less_divisor) simp
  then have "real (?j mod 4) \<le> 5" by linarith
  then have "fst (real (?j mod 4) + 10, 9 * w) \<le> 15" by simp
  with le g show ?thesis by blast
qed

subsection \<open>The retry loop\<close>

text \<open>
  Claim C5, as amended. The retry loop \<^verbatim>\<open>while test_loss > 15\<close>, entered with the result
  \<open>r\<close> of the call before it and with \<open>k\<close> the number of the next call, behaves as follows,
  for any results of the calls.

  \<^item> Whenever it ends with a value, the test loss of that value is at most 15, and the
    value is tied to the calls: it is \<open>r\<close> itself, with no call made, when the loss of
    \<open>r\<close> is at most 15; otherwise it is the result of the last call made, call
    \<open>k' - 1\<close>, every call before it (\<open>k\<close> to \<open>k' - 2\<close>) having returned a loss above 15
    that was discarded, and none having raised. Whenever it ends with an exception, that
    exception is the one raised by a call of the loop, all calls before it having been
    discarded.
  \<^item> It terminates when one of the calls the loop itself goes on to make (call \<open>j\<close>, with
    \<open>k \<le> j\<close>) yields a loss of at most 15: it ends after call \<open>j\<close> at the latest, and
    with a value unless an earlier call raised.
  \<^item> It runs forever exactly when the loss of \<open>r\<close> and the losses of all the calls from
    \<open>k\<close> on are above 15; that some training run reaches the threshold is not enough.
\<close>

theorem retry_loop_returns:
  "(\<forall>res. retry_loop call k r = Some res \<longrightarrow>
      (\<forall>v k'. res = Inr (v, k') \<longrightarrow>
          fst v \<le> 15 \<and> k \<le> k'
          \<and> (if 15 < fst r then k < k' \<and> call (k' - 1) = Inr v else v = r \<and> k' = k)
          \<and> length (discarded_losses call k k') + (if 15 < fst r then 1 else 0) = k' - k
          \<and> raised call k k' = [])
      \<and> (\<forall>e. res = Inl e \<longrightarrow>
          15 < fst r \<and> (\<exists>i. k \<le> i \<and> call i = Inl e \<and> raised call k i = []
             \<and> accepted_losses call k i = [])))
   \<and> (\<forall>j test_loss num_param.
        k \<le> j \<and> call j = Inr (test_loss, num_param) \<and> test_loss \<le> 15 \<longrightarrow>
        (\<exists>res. retry_loop call k r = Some res
           \<and> (\<forall>v k'. res = Inr (v, k') \<longrightarrow> k' \<le> Suc j)
           \<and> (raised call k j = [] \<longrightarrow> (\<exists>v k'. res = Inr (v, k')))))
   \<and> (retry_loop call k r = None \<longleftrightarrow>
        15 < fst r \<and> (\<forall>j\<ge>k. \<exists>r'. call j = Inr r' \<and> 15 < fst r'))"
proof (intro conjI allI impI)
  fix res v k'
  assume s: "retry_loop call k r = Some res" and res: "res = Inr (v, k')"
  from retry_loop_Inr [OF s] res have a:
    "k \<le> k'" "\<not> 15 < fst v"
    "length (discarded_losses call k k') + (if 15 < fst r then 1 else 0) = k' - k"
    "raised call k k' = []"
    by auto
  from retry_loop_Inr_last [OF s] res have b:
    "\<not> 15 < fst r \<longrightarrow> v = r \<and> k' = k" "15 < fst r \<longrightarrow> k < k' \<and> call (k' - 1) = Inr v"
    by auto
  show "fst v \<le> 15" using a(2) by simp
  show "k \<le> k'" by (rule a(1))
  show "if 15 < fst r then k < k' \<and> call (k' - 1) = Inr v else v = r \<and> k' = k"
    using b by simp
  show "length (discarded_losses call k k') + (if 15 < fst r then 1 else 0) = k' - k"
    by (rule a(3))
  show "raised call k k' = []" by (rule a(4))
next
  fix res e
  assume s: "retry_loop call k r = Some res" and res: "res = Inl e"
  from retry_loop_Inl [OF s] res show "15 < fst r"
    and "\<exists>i. k \<le> i \<and> call i = Inl e \<and> raised call k i = [] \<and> accepted_losses call k i = []"
    by auto
next
  fix j test_loss num_param
  assume h: "k \<le> j \<and> call j = Inr (test_loss, num_param) \<and> test_loss \<le> 15"
  then have "\<not> 15 < fst (test_loss, num_param)" by simp
  with h retry_loop_terminates [of k j call "(test_loss, num_param)" r]
  show "\<exists>res. retry_loop call k r = Some res
           \<and> (\<forall>v k'. res = Inr (v, k') \<longrightarrow> k' \<le> Suc j)
           \<and> (raised call k j = [] \<longrightarrow> (\<exists>v k'. res = Inr (v, k')))"
    by blast
next
  show "retry_loop call k r = None \<longleftrightarrow>
        15 < fst r \<and> (\<forall>j\<ge>k. \<exists>r'. call j = Inr r' \<and> 15 < fst r')"
    by (rule retry_loop_None_iff)
qed

theorem retry_loop_returns_witness:
  "gtl_retry 50 21 = Inr (20, 189) \<and> gtl_retry 51 21 = Inr (20, 189)
   \<and> gtl_retry 52 21 = Inr (10, 189)
   \<and> retry_loop (\<lambda>k. gtl_retry k 21) 51 (20, 189) = Some (Inr ((10, 189), 53))"
proof -
  let ?call = "\<lambda>k. gtl_retry k 21"
  have c50: "gtl_retry 50 21 = Inr (20, 189)" and c51: "gtl_retry 51 21 = Inr (20, 189)"
    and c52: "gtl_retry 52 21 = Inr (10, 189)"
    by (simp_all add: gtl_retry_def)
  have r: "raised ?call 51 52 = []"
    by (simp add: raised_def gtl_retry_def)
  note t = retry_loop_returns [of ?call 51 "(20, 189)"]
  have "51 \<le> (52 :: nat) \<and> ?call 52 = Inr (10, 189) \<and> (10 :: real) \<le> 15"
    using c52 by simp
  with t [THEN conjunct2, THEN conjunct1, rule_format, of 52 10 189] r obtain v k' where
    res: "retry_loop ?call 51 (20, 189) = Some (Inr (v, k'))" and le: "k' \<le> Suc 52"
    by blast
  from t [THEN conjunct1, rule_format, OF res, THEN conjunct1, rule_format, of v k']
  have lt: "51 < k'" and last: "gtl_retry (k' - 1) 21 = Inr v" and v: "fst v \<le> 15"
    by simp_all
  have "k' \<noteq> 52"
    using last v c51 by auto
  with lt le have k': "k' = 53" by simp
  with last c52 have "v = (10, 189)" by simp
  with res k' c50 c51 c52 show ?thesis by simp
qed

text \<open>
  The claim as written (the loop always terminates when a test loss at or below the
  threshold is reachable by some training run) fails on the call results \<open>calls_stuck\<close>:
  the first training run reaches a test loss of 10, and accepting it ends the first
  pass of the run loop; the second pass gets a loss of 20 from call 1, enters the retry
  loop, and every later call returns 20 too, so the retry loop, and with it the loop
  over the runs, never ends.
\<close>

theorem retry_loop_returns_counterexample:
  "calls_stuck 0 = Inr (10, 9) \<and> calls_stuck 1 = Inr (20, 9)
   \<and> retry_loop calls_stuck 2 (20, 9) = None
   \<and> run_loop calls_stuck [0..<num_runs] (0, 0, None) = None"
proof -
  have a: "calls_stuck 0 = Inr (10, 9)" "calls_stuck 1 = Inr (20, 9)"
    by (simp_all add: calls_stuck_def)
  have b: "retry_loop calls_stuck 2 (20, 9) = None"
    by (rule retry_loop_None) (simp_all add: calls_stuck_def)
  from a b run_loop_calls_stuck [of None] show ?thesis by simp
qed

subsection \<open>The sweep\<close>

text \<open>
  Claim C4. For any results of the calls of \<^verbatim>\<open>get_test_loss\<close> (in particular for those of
  \<open>sweep_cell\<close>), the sweep over the widths of \<^verbatim>\<open>range(1, 250, 20)\<close> has one of three
  outcomes, and a test loss above the threshold never surfaces as an error.

  \<^item> When the sweep ends normally, then for every width, in order: the calls made for
    that width follow those of the width before, none of them raised, every call whose
    test loss exceeded 15 was discarded and followed by another call (the number of
    calls is \<open>num_runs\<close> plus the number of discarded losses), exactly \<open>num_runs = 10\<close>
    losses were accepted, and the value appended to \<^verbatim>\<open>test_losses\<close> for that width is
    the sum of the accepted losses divided by \<open>num_runs\<close>.
  \<^item> When the sweep ends with an exception, that exception was raised by a call of
    \<^verbatim>\<open>get_test_loss\<close> for one of the widths: the loops raise nothing of their own,
    whatever the losses.
  \<^item> When the sweep never ends, then for one of the widths all the calls from some call
    on return a loss above 15.
  \<^item> Hence, when no call for a width of the sweep raises and, for every such width,
    every call is, or is followed by, a call with a loss of at most 15, the sweep
    ends normally.
\<close>

theorem sweep_recorded:
  "(\<forall>st. sweep gtl = Some (Inr st) \<longrightarrow>
      (\<exists>ks. recorded gtl (py_range 1 250 20) (0 # ks) (test_losses st)
         \<and> last (0 # ks) = calls st))
   \<and> (\<forall>e. sweep gtl = Some (Inl e) \<longrightarrow>
        (\<exists>k w. w \<in> set (py_range 1 250 20) \<and> gtl k w = Inl e))
   \<and> (sweep gtl = None \<longrightarrow>
        (\<exists>w k. w \<in> set (py_range 1 250 20)
           \<and> (\<forall>j\<ge>k. \<exists>r. gtl j w = Inr r \<and> 15 < fst r)))
   \<and> ((\<forall>w \<in> set (py_range 1 250 20). \<forall>k.
          (\<exists>r. gtl k w = Inr r) \<and> (\<exists>j r. k \<le> j \<and> gtl j w = Inr r \<and> fst r \<le> 15))
        \<longrightarrow> (\<exists>st. sweep gtl = Some (Inr st)))"
proof (intro conjI allI impI)
  fix st
  assume "sweep gtl = Some (Inr st)"
  then show "\<exists>ks. recorded gtl (py_range 1 250 20) (0 # ks) (test_losses st)
         \<and> last (0 # ks) = calls st"
    by (rule sweep_recorded_aux)
next
  fix e
  assume "sweep gtl = Some (Inl e)"
  then show "\<exists>k w. w \<in> set (py_range 1 250 20) \<and> gtl k w = Inl e"
    unfolding sweep_def by (rule width_loop_Inl)
next
  assume "sweep gtl = None"
  then show "\<exists>w k. w \<in> set (py_range 1 250 20)
           \<and> (\<forall>j\<ge>k. \<exists>r. gtl j w = Inr r \<and> 15 < fst r)"
    unfolding sweep_def by (rule width_loop_None)
next
  assume h: "\<forall>w \<in> set (py_range 1 250 20). \<forall>k.
          (\<exists>r. gtl k w = Inr r) \<and> (\<exists>j r. k \<le> j \<and> gtl j w = Inr r \<and> fst r \<le> 15)"
  show "\<exists>st. sweep gtl = Some (Inr st)"
    unfolding sweep_def
  proof (rule width_loop_returns)
    fix w k
    assume "w \<in> set (py_range 1 250 20)"
    with h show "\<exists>r. gtl k w = Inr r" by blast
  next
    fix w k
    assume "w \<in> set (py_range 1 250 20)"
    with h have "\<exists>j r. k \<le> j \<and> gtl j w = Inr r \<and> fst r \<le> 15" by blast
    then show "\<exists>j r. k \<le> j \<and> gtl j w = Inr r \<and> \<not> 15 < fst r"
      by (simp add: not_less)
  qed
qed

theorem sweep_recorded_witness:
  "(\<exists>ks. recorded gtl_retry (py_range 1 250 20) (0 # ks)
           [117 / 10, 113 / 10, 117 / 10, 113 / 10, 113 / 10, 117 / 10,
            113 / 10, 117 / 10, 113 / 10, 117 / 10, 117 / 10, 113 / 10,
            117 / 10]
         \<and> last (0 # ks) = 136)
   \<and> (\<exists>k w. w \<in> set (py_range 1 250 20) \<and> gtl_raising k w = Inl StopIteration)
   \<and> (\<exists>w k. w \<in> set (py_range 1 250 20)
         \<and> (\<forall>j\<ge>k. \<exists>r. calls_stuck j = Inr r \<and> 15 < fst r))
   \<and> (\<forall>w k. (\<exists>r. gtl_retry k w = Inr r)
          \<and> (\<exists>j r. k \<le> j \<and> gtl_retry j w = Inr r \<and> fst r \<le> 15))
   \<and> (\<exists>st. sweep gtl_retry = Some (Inr st))"
proof -
  have h: "\<forall>w k. (\<exists>r. gtl_retry k w = Inr r)
          \<and> (\<exists>j r. k \<le> j \<and> gtl_retry j w = Inr r \<and> fst r \<le> 15)"
    using gtl_retry_reach by (simp add: gtl_retry_def)
  from sweep_recorded [of gtl_retry, THEN conjunct1, rule_format, OF sweep_retry_example]
  have a: "\<exists>ks. recorded gtl_retry (py_range 1 250 20) (0 # ks)
           [117 / 10, 113 / 10, 117 / 10, 113 / 10, 113 / 10, 117 / 10,
            113 / 10, 117 / 10, 113 / 10, 117 / 10, 117 / 10, 113 / 10,
            117 / 10]
         \<and> last (0 # ks) = 136"
    by simp
  from sweep_recorded [of gtl_raising, THEN conjunct2, THEN conjunct1, rule_format,
      OF sweep_raising]
  have b: "\<exists>k w. w \<in> set (py_range 1 250 20) \<and> gtl_raising k w = Inl StopIteration" .
  from sweep_recorded [of "\<lambda>k layer_size. calls_stuck k", THEN conjunct2, THEN conjunct2,
      THEN conjunct1, THEN mp, OF sweep_stuck]
  have c: "\<exists>w k. w \<in> set (py_range 1 250 20)
         \<and> (\<forall>j\<ge>k. \<exists>r. calls_stuck j = Inr r \<and> 15 < fst r)" .
  have "\<forall>w \<in> set (py_range 1 250 20). \<forall>k. (\<exists>r. gtl_retry k w = Inr r)
          \<and> (\<exists>j r. k \<le> j \<and> gtl_retry j w = Inr r \<and> fst r \<le> 15)"
    using h by simp
  from sweep_recorded [of gtl_retry, THEN conjunct2, THEN conjunct2, THEN conjunct2,
      THEN mp, OF this]
  have d: "\<exists>st. sweep gtl_retry = Some (Inr st)" .
  show ?thesis
    using a b c h d by (intro conjI) assumption+
qed

text \<open>
  Claim C8. When the sweep ends without an exception, \<^verbatim>\<open>test_losses\<close> holds one average
  for each of the 13 widths, and every one of them is bounded by the threshold 15
  (each is the mean of \<open>num_runs\<close> accepted losses, none of which exceeds 15).
\<close>

theorem sweep_bounded:
  assumes "sweep gtl = Some (Inr st)"
  shows "length (test_losses st) = 13 \<and> list_all (\<lambda>v. v \<le> 15) (test_losses st)"
proof -
  from sweep_recorded_aux [OF assms] obtain ks where
    "recorded gtl (py_range 1 250 20) (0 # ks) (test_losses st)"
    by blast
  from recorded_bounded [OF this] length_py_range show ?thesis
    by simp
qed

theorem sweep_bounded_witness:
  "list_all (\<lambda>v. v \<le> 15)
     [23 / 2, 23 / 2, 23 / 2, 23 / 2, 58 / 5, 113 / 10, 117 / 10,
      113 / 10, 117 / 10, 23 / 2, 23 / 2, 23 / 2, 23 / 2 :: real]"
  using sweep_bounded [OF sweep_example] by simp

section \<open>Properties of the data set and the loaders\<close>

lemma py_index_nat: "i < length xs \<Longrightarrow> py_index xs (int i) = Inr (xs ! i)"
  by (simp add: py_index_def)

lemma py_index_InrD:
  "py_index xs (int i) = Inr v \<Longrightarrow> i < length xs \<and> v = xs ! i"
  by (auto simp: py_index_def Let_def split: if_splits)

lemma getitem_row:
  assumes "i < length (data self)" and "abalone_row (data self ! i)"
  shows "AbaloneData_getitem self (int i) = Inr (features (data self ! i), label (data self ! i))"
proof -
  let ?row = "data self ! i"
  from assms(2) have len: "length ?row = 9" and nums: "list_all is_Num (tl ?row)"
    by (simp_all add: abalone_row_def)
  have p0: "py_index ?row 0 = Inr (hd ?row)"
    using len py_index_nat [of 0 ?row] by (cases ?row) simp_all
  have p8: "py_index ?row 8 = Inr (?row ! 8)"
    using len py_index_nat [of 8 ?row] by simp
  have t: "list_all is_Num (take 7 (tl ?row))"
    using nums by (auto simp: list_all_iff dest: in_set_takeD)
  have "?row ! 8 = tl ?row ! 7" and "7 < length (tl ?row)"
    using len by (cases ?row, simp_all)+
  then have "?row ! 8 \<in> set (tl ?row)"
    by (metis nth_mem)
  with nums have y: "is_Num (?row ! 8)"
    by (simp add: list_all_iff)
  show ?thesis
    using assms(1) p0 p8 t y
    by (simp add: AbaloneData_getitem_def py_index_nat torch_tensor_def torch_scalar_def
        features_def label_def drop_Suc)
qed

lemma getitem_length:
  assumes "AbaloneData_getitem self idx = Inr (x, y)"
  shows "length x = 8"
proof -
  from assms obtain row v where row: "py_index row 8 = Inr v"
    and x: "torch_tensor (Num (if hd row = Str ''M'' then 0 else 1) # take 7 (drop 1 row)) = Inr x
       \<or> (\<exists>c. torch_tensor (Num c # take 7 (drop 1 row)) = Inr x)"
    by (auto simp: AbaloneData_getitem_def Let_def split: sum.splits)
  from row have "8 < length row"
    using py_index_InrD [of row 8 v] by simp
  with x show ?thesis
    by (auto simp: torch_tensor_def split: if_splits)
qed

lemma collect_map_Inr: "collect (map Inr vs) = Inr vs"
  by (induction vs) auto

lemma collect_InrD: "collect rs = Inr vs \<Longrightarrow> rs = map Inr vs"
  by (induction rs arbitrary: vs) (auto split: sum.splits)

lemma fetch_rows:
  assumes "list_all (\<lambda>i. i < length (data ds) \<and> abalone_row (data ds ! i)) idxs"
  shows "fetch ds idxs =
     Inr (map (\<lambda>i. features (data ds ! i)) idxs, map (\<lambda>i. label (data ds ! i)) idxs)"
proof -
  have h: "map (\<lambda>i. AbaloneData_getitem ds (int i)) idxs =
      map Inr (map (\<lambda>i. (features (data ds ! i), label (data ds ! i))) idxs)"
    using assms by (auto simp: list_all_iff getitem_row)
  show ?thesis
    unfolding fetch_def h collect_map_Inr by (simp add: comp_def)
qed

lemma fetch_shape:
  assumes "fetch ds idxs = Inr (xs, ys)"
  shows "length xs = length idxs \<and> length ys = length idxs \<and> list_all (\<lambda>x. length x = 8) xs"
proof -
  from assms obtain samples where
    c: "collect (map (\<lambda>i. AbaloneData_getitem ds (int i)) idxs) = Inr samples"
    and xs: "xs = map fst samples" and ys: "ys = map snd samples"
    by (auto simp: fetch_def split: sum.splits)
  from collect_InrD [OF c] have m: "map (\<lambda>i. AbaloneData_getitem ds (int i)) idxs = map Inr samples" .
  then have len: "length samples = length idxs"
    by (metis length_map)
  have "length (fst s) = 8" if "s \<in> set samples" for s
  proof -
    from that have "Inr s \<in> set (map (\<lambda>i. AbaloneData_getitem ds (int i)) idxs)"
      by (simp add: m)
    then obtain i where "AbaloneData_getitem ds (int i) = Inr (fst s, snd s)"
      by auto
    then show ?thesis by (rule getitem_length)
  qed
  then show ?thesis
    using len by (simp add: xs ys list_all_iff)
qed

lemma chunk_Nil [simp]: "chunk n [] = []"
  by (simp add: chunk.simps)

lemma chunk_Cons: "0 < n \<Longrightarrow> xs \<noteq> [] \<Longrightarrow> chunk n xs = take n xs # chunk n (drop n xs)"
  by (subst chunk.simps) simp

text \<open>No batch is empty.\<close>

lemma chunk_nonempty: "list_all (\<lambda>b. b \<noteq> []) (chunk n xs)"
  by (induction n xs rule: chunk.induct) (subst chunk.simps, auto)

lemma sampler_plain: "\<not> shuffle ld \<Longrightarrow> sampler ld key = [0..<AbaloneData_len (dataset ld)]"
  by (simp add: sampler_def)

lemma length_sampler: "length (sampler ld key) = AbaloneData_len (dataset ld)"
  by (simp add: sampler_def)

lemma set_sampler: "set (sampler ld key) = {0..<AbaloneData_len (dataset ld)}"
  by (simp add: sampler_def)

lemma first_batch_plain:
  assumes "\<not> shuffle ld" and "0 < batch_size ld" and "0 < AbaloneData_len (dataset ld)"
  shows "first_batch ld key =
     fetch (dataset ld) [0..<min (batch_size ld) (AbaloneData_len (dataset ld))]"
proof -
  let ?n = "AbaloneData_len (dataset ld)"
  have "[0..<?n] \<noteq> []" using assms(3) by simp
  then have "chunk (batch_size ld) [0..<?n] =
      take (batch_size ld) [0..<?n] # chunk (batch_size ld) (drop (batch_size ld) [0..<?n])"
    using assms(2) by (rule chunk_Cons [rotated])
  then show ?thesis
    using assms(1) by (simp add: first_batch_def DataLoader_iter_def sampler_plain take_upt min_def)
qed

lemma test_loader_len:
  "AbaloneData_len (dataset (test_loader csv)) = min 1000 (length csv - 3000)"
  by (simp add: test_loader_def AbaloneData_len_def)


lemma features_length: "abalone_row row \<Longrightarrow> length (features row) = 8"
  by (simp add: abalone_row_def features_def)

text \<open>
  Claim C7. For a table whose rows have the abalone layout (nine columns, all but the
  sex numeric), \<^verbatim>\<open>__getitem__\<close> returns for every row the feature vector of exactly 8
  numbers - the sex as 0 when it is \<^verbatim>\<open>'M'\<close> and 1 otherwise (so \<^verbatim>\<open>'F'\<close> and \<^verbatim>\<open>'I'\<close> both
  give 1), followed by the seven measurements - and the ninth column as the label; a
  batch fetched for \<open>k\<close> indices is the \<open>k x 8\<close> matrix of those vectors with the vector of
  the \<open>k\<close> labels; and whatever batch the data set returns has rows of 8 numbers.
\<close>

theorem AbaloneData_getitem_features:
  assumes "list_all abalone_row (data self)"
  shows "(\<forall>i<length (data self).
            AbaloneData_getitem self (int i) = Inr (features (data self ! i), label (data self ! i))
            \<and> length (features (data self ! i)) = 8)
       \<and> (\<forall>idxs. list_all (\<lambda>i. i < length (data self)) idxs \<longrightarrow>
            fetch self idxs = Inr (map (\<lambda>i. features (data self ! i)) idxs,
                                  map (\<lambda>i. label (data self ! i)) idxs))
       \<and> (\<forall>idxs xs ys. fetch self idxs = Inr (xs, ys) \<longrightarrow>
            length xs = length idxs \<and> list_all (\<lambda>x. length x = 8) xs)"
proof (intro conjI allI impI)
  fix i assume i: "i < length (data self)"
  with assms have r: "abalone_row (data self ! i)"
    by (simp add: list_all_length)
  show "AbaloneData_getitem self (int i) = Inr (features (data self ! i), label (data self ! i))"
    using i r by (rule getitem_row)
  show "length (features (data self ! i)) = 8"
    using r by (rule features_length)
next
  fix idxs assume "list_all (\<lambda>i. i < length (data self)) idxs"
  with assms have "list_all (\<lambda>i. i < length (data self) \<and> abalone_row (data self ! i)) idxs"
    by (simp add: list_all_length)
  then show "fetch self idxs = Inr (map (\<lambda>i. features (data self ! i)) idxs,
                                  map (\<lambda>i. label (data self ! i)) idxs)"
    by (rule fetch_rows)
next
  fix idxs xs ys assume f: "fetch self idxs = Inr (xs, ys)"
  show "length xs = length idxs" using fetch_shape [OF f] by simp
  show "list_all (\<lambda>x. length x = 8) xs" using fetch_shape [OF f] by simp
qed

theorem AbaloneData_getitem_features_witness:
  "AbaloneData_getitem abalone_example 0 =
     Inr ([0, 455 / 1000, 365 / 1000, 95 / 1000, 514 / 1000, 2245 / 10000, 101 / 1000, 15 / 100], 15)
   \<and> AbaloneData_getitem abalone_example 1 =
     Inr ([1, 53 / 100, 42 / 100, 135 / 1000, 677 / 1000, 2565 / 10000, 1415 / 10000, 21 / 100], 9)
   \<and> AbaloneData_getitem abalone_example 2 =
     Inr ([1, 33 / 100, 255 / 1000, 8 / 100, 205 / 1000, 895 / 10000, 395 / 10000, 55 / 1000], 7)
   \<and> fetch abalone_example [2, 0] =
     Inr ([[1, 33 / 100, 255 / 1000, 8 / 100, 205 / 1000, 895 / 10000, 395 / 10000, 55 / 1000],
           [0, 455 / 1000, 365 / 1000, 95 / 1000, 514 / 1000, 2245 / 10000, 101 / 1000, 15 / 100]],
          [7, 15])"
proof -
  have wf: "list_all abalone_row (data abalone_example)"
    by (simp add: abalone_example_def abalone_row_def)
  have len: "length (data abalone_example) = 3"
    by (simp add: abalone_example_def)
  have rows: "features (data abalone_example ! 0) =
       [0, 455 / 1000, 365 / 1000, 95 / 1000, 514 / 1000, 2245 / 10000, 101 / 1000, 15 / 100]"
     "features (data abalone_example ! Suc 0) =
       [1, 53 / 100, 42 / 100, 135 / 1000, 677 / 1000, 2565 / 10000, 1415 / 10000, 21 / 100]"
     "features (data abalone_example ! 2) =
       [1, 33 / 100, 255 / 1000, 8 / 100, 205 / 1000, 895 / 10000, 395 / 10000, 55 / 1000]"
     "label (data abalone_example ! 0) = 15" "label (data abalone_example ! Suc 0) = 9"
     "label (data abalone_example ! 2) = 7"
    by (simp_all add: abalone_example_def features_def label_def)
  from AbaloneData_getitem_features [OF wf] have
    g: "\<forall>i<3. AbaloneData_getitem abalone_example (int i) =
           Inr (features (data abalone_example ! i), label (data abalone_example ! i))"
    and f: "list_all (\<lambda>i. i < 3) [2, 0 :: nat] \<longrightarrow> fetch abalone_example [2, 0] =
           Inr (map (\<lambda>i. features (data abalone_example ! i)) [2, 0],
                map (\<lambda>i. label (data abalone_example ! i)) [2, 0])"
    by (simp_all add: len)
  from g [THEN spec, of 0] g [THEN spec, of 1] g [THEN spec, of 2]
  have "AbaloneData_getitem abalone_example 0 =
           Inr (features (data abalone_example ! 0), label (data abalone_example ! 0))"
     "AbaloneData_getitem abalone_example 1 =
           Inr (features (data abalone_example ! 1), label (data abalone_example ! 1))"
     "AbaloneData_getitem abalone_example 2 =
           Inr (features (data abalone_example ! 2), label (data abalone_example ! 2))"
    by simp_all
  with f show ?thesis
    by (simp add: rows)
qed


section \<open>Properties of the model and of its training\<close>

lemma Sequential_forward_append:
  "Sequential_forward (ls @ ls') x =
     (case Sequential_forward ls x of Inl e \<Rightarrow> Inl e | Inr y \<Rightarrow> Sequential_forward ls' y)"
  by (induction ls arbitrary: x) (auto split: sum.splits)

lemma relu_nonneg: "0 \<le> relu v"
  by (simp add: relu_def)

lemma relu_nonpos: "v \<le> 0 \<Longrightarrow> relu v = 0"
  by (simp add: relu_def)

lemma is_matrix_map_upt: "is_matrix r c (map (\<lambda>j. map (f j) [0..<c]) [0..<r])"
  by (simp add: is_matrix_def list_all_iff)

lemma is_matrix_map2:
  assumes "is_matrix r c a" and "is_matrix r c b"
  shows "is_matrix r c (map2 (map2 f) a b)"
  using assms by (auto simp: is_matrix_def list_all_length)

lemma is_matrix_zeros: "is_matrix r c a \<Longrightarrow> is_matrix r c (map (map (\<lambda>g. 0)) a)"
  by (auto simp: is_matrix_def list_all_length)

lemma numel_is_matrix: "is_matrix r c m \<Longrightarrow> numel m = r * c"
proof -
  assume "is_matrix r c m"
  then have "map length m = replicate r c"
    by (auto simp: is_matrix_def list_all_length intro!: nth_equalityI)
  then show ?thesis
    by (simp add: numel_def sum_list_replicate)
qed

lemma Linear_init_wf: "Linear_wf (Linear_init n_in n_out b init)"
  by (simp add: Linear_wf_def Linear_init_def is_matrix_map_upt)

lemma Layer_zero_grad_wf: "Layer_wf l \<Longrightarrow> Layer_wf (Layer_zero_grad l)"
  by (cases l) (auto simp: Linear_wf_def is_matrix_zeros split: option.splits)

lemma Layer_zero_grad_kind: "Layer_kind (Layer_zero_grad l) = Layer_kind l"
  by (cases l) auto

lemma Layer_backward_wf: "Layer_wf l \<Longrightarrow> Layer_wf (fst (Layer_backward l x gy))"
proof (cases l)
  case (LinearL lin)
  assume "Layer_wf l"
  with LinearL have wf: "Linear_wf lin" by simp
  have g: "is_matrix (out_features lin) (in_features lin) (Linear_weight_grad lin x gy)"
    by (simp add: Linear_weight_grad_def is_matrix_map_upt)
  have b: "length (Linear_bias_grad lin gy) = out_features lin"
    by (simp add: Linear_bias_grad_def)
  show ?thesis
    using wf g b LinearL
    by (cases "weight_grad lin"; cases "bias_grad lin"; cases "bias lin")
      (auto simp: Linear_wf_def Linear_backward_def is_matrix_map2)
qed simp

lemma Layer_backward_kind: "Layer_kind (fst (Layer_backward l x gy)) = Layer_kind l"
  by (cases l) (auto simp: Linear_backward_def)

lemma Layer_step_wf: "Layer_wf l \<Longrightarrow> Layer_wf (Layer_step lr l)"
  by (cases l) (auto simp: Linear_wf_def is_matrix_map2 split: option.splits)

lemma Layer_step_kind: "Layer_kind (Layer_step lr l) = Layer_kind l"
  by (cases l) (auto split: option.splits)

lemma Sequential_backward_wf:
  "list_all Layer_wf ls \<Longrightarrow> list_all Layer_wf (fst (Sequential_backward ls tape g))"
proof (induction ls tape g rule: Sequential_backward.induct)
  case (1 l ls x tape g)
  then show ?case
    using Layer_backward_wf [of l x "snd (Sequential_backward ls tape g)"]
    by (auto split: prod.splits)
qed simp_all

lemma Sequential_backward_kind:
  "map Layer_kind (fst (Sequential_backward ls tape g)) = map Layer_kind ls"
proof (induction ls tape g rule: Sequential_backward.induct)
  case (1 l ls x tape g)
  then show ?case
    using Layer_backward_kind [of l x "snd (Sequential_backward ls tape g)"]
    by (auto split: prod.splits)
qed simp_all

lemma train_step_inv:
  assumes "train_step lr m x y = Inr (m', loss)" and "list_all Layer_wf (layers m)"
  shows "list_all Layer_wf (layers m') \<and> architecture m' = architecture m"
proof -
  let ?m0 = "zero_grad m"
  from assms(1) obtain tape where
    m': "m' = SGD_step lr (?m0\<lparr>layers := fst (Sequential_backward (layers ?m0) tape
              (MSELoss_backward (squeeze (last tape)) y))\<rparr>)"
    by (auto simp: train_step_def Let_def split: sum.splits)
  have z: "list_all Layer_wf (layers ?m0)"
    using assms(2) by (simp add: zero_grad_def list_all_iff Layer_zero_grad_wf)
  have zk: "map Layer_kind (layers ?m0) = map Layer_kind (layers m)"
    by (simp add: zero_grad_def Layer_zero_grad_kind)
  let ?ls = "fst (Sequential_backward (layers ?m0) tape
      (MSELoss_backward (squeeze (last tape)) y))"
  have l: "layers m' = map (Layer_step lr) ?ls"
    by (simp add: m' SGD_step_def)
  have "list_all Layer_wf ?ls"
    using z by (rule Sequential_backward_wf)
  then have wf: "list_all Layer_wf (layers m')"
    by (simp add: l list_all_iff Layer_step_wf)
  have "map Layer_kind (layers m') = map Layer_kind ?ls"
    by (simp add: l Layer_step_kind)
  also have "\<dots> = map Layer_kind (layers ?m0)"
    by (rule Sequential_backward_kind)
  finally have "architecture m' = architecture m"
    using zk by (simp add: architecture_def)
  with wf show ?thesis by simp
qed

lemma batch_loop_inv:
  assumes "batch_loop ds lr batches (m, acc) = Inr (m', acc')" and "list_all Layer_wf (layers m)"
  shows "list_all Layer_wf (layers m') \<and> architecture m' = architecture m"
  using assms
proof (induction batches arbitrary: m acc)
  case Nil
  then show ?case by simp
next
  case (Cons idxs rest)
  from Cons.prems(1) obtain x y m1 loss where
    s: "train_step lr m x y = Inr (m1, loss)" and
    r: "batch_loop ds lr rest (m1, acc + loss) = Inr (m', acc')"
    by (auto split: sum.splits prod.splits)
  from train_step_inv [OF s Cons.prems(2)] Cons.IH [OF r] show ?case
    by simp
qed

lemma epoch_loop_inv:
  assumes "epoch_loop g loader lr es m = Inr m'" and "list_all Layer_wf (layers m)"
  shows "list_all Layer_wf (layers m') \<and> architecture m' = architecture m"
  using assms
proof (induction es arbitrary: m)
  case Nil
  then show ?case by simp
next
  case (Cons e es)
  from Cons.prems(1) obtain m1 acc where
    b: "batch_loop (dataset loader) lr (DataLoader_iter loader (shuffle_key g e)) (m, 0)
          = Inr (m1, acc)" and
    r: "epoch_loop g loader lr es m1 = Inr m'"
    by (auto split: sum.splits prod.splits)
  from batch_loop_inv [OF b Cons.prems(2)] Cons.IH [OF r] show ?case
    by simp
qed

lemma Model_init_wf: "list_all Layer_wf (layers (Model_init layer_size g))"
  by (simp add: Model_init_def Linear_init_wf)

lemma Model_init_architecture:
  "architecture (Model_init layer_size g) =
     [Some (8, layer_size, False), None, Some (layer_size, 1, False), None]"
  by (simp add: Model_init_def architecture_def Linear_init_def)

lemma architecture_layers:
  assumes "architecture m = [Some (n1, n2, False), None, Some (n3, n4, False), None]"
  shows "\<exists>l1 l2. layers m = [LinearL l1, ReLUL, LinearL l2, ReLUL]
           \<and> in_features l1 = n1 \<and> out_features l1 = n2 \<and> bias l1 = None
           \<and> in_features l2 = n3 \<and> out_features l2 = n4 \<and> bias l2 = None"
proof -
  from assms obtain a b c d where l: "layers m = [a, b, c, d]"
    and k: "Layer_kind a = Some (n1, n2, False)" "Layer_kind b = None"
      "Layer_kind c = Some (n3, n4, False)" "Layer_kind d = None"
    by (auto simp: architecture_def map_eq_Cons_conv)
  from k show ?thesis
    by (cases a; cases b; cases c; cases d) (auto simp: l)
qed

lemma parameters_numel_arch:
  assumes "list_all Layer_wf (layers m)"
    and "architecture m = [Some (8, layer_size, False), None, Some (layer_size, 1, False), None]"
  shows "sum_list (parameters_numel m) = 9 * layer_size"
proof -
  from architecture_layers [OF assms(2)] obtain l1 l2 where
    l: "layers m = [LinearL l1, ReLUL, LinearL l2, ReLUL]"
    and s: "in_features l1 = 8" "out_features l1 = layer_size" "bias l1 = None"
      "in_features l2 = layer_size" "out_features l2 = 1" "bias l2 = None"
    by blast
  from assms(1) l have "Linear_wf l1" "Linear_wf l2" by simp_all
  then have "is_matrix layer_size 8 (weight l1)" "is_matrix 1 layer_size (weight l2)"
    using s by (simp_all add: Linear_wf_def)
  then have "numel (weight l1) = layer_size * 8" "numel (weight l2) = 1 * layer_size"
    by (simp_all only: numel_is_matrix)
  then show ?thesis
    using s by (simp add: parameters_numel_def l)
qed

lemma get_test_loss_test_mse:
  assumes "\<not> shuffle tel" and "0 < batch_size tel" and "0 < AbaloneData_len (dataset tel)"
  shows "get_test_loss g trl tel layer_size E =
     (case epoch_loop g trl (1 / 100) [0..<E] (Model_init layer_size g) of
        Inl e \<Rightarrow> Inl e
      | Inr model \<Rightarrow>
     (case test_mse model (dataset tel)
             [0..<min (batch_size tel) (AbaloneData_len (dataset tel))] of
        Inl e \<Rightarrow> Inl e
      | Inr loss \<Rightarrow> Inr (loss, sum_list (parameters_numel model))))"
  by (simp add: get_test_loss_def test_mse_def first_batch_plain [OF assms]
      split: sum.splits prod.splits)

lemma upt_min_eq: "0 < n \<Longrightarrow> ([0..<min b n] = [0..<n]) = (n \<le> b)"
  by (metis length_upt diff_zero min.absorb2 min.cobounded1 min_def)

lemma get_test_loss_example:
  "get_test_loss rng_example train_example test_example 1 1 = Inr (92102409 / 100000000, 9)"
  by code_simp

lemma Linear_forward_wf:
  assumes "Linear_wf l" and "bias l = None" and "list_all (\<lambda>r. length r = in_features l) x"
  shows "Linear_forward l x = Inr (map (Linear_row l) x)"
    and "list_all (\<lambda>r. length r = out_features l) (map (Linear_row l) x)"
  using assms
  by (auto simp: Linear_forward_def Linear_row_def Linear_wf_def is_matrix_def list_all_iff)

lemma Model_forward_shape:
  assumes "list_all Layer_wf (layers m)"
    and "architecture m = [Some (n_in, n_hid, False), None, Some (n_hid, n_out, False), None]"
    and "list_all (\<lambda>r. length r = n_in) x"
  shows "\<exists>out. Model_forward m x = Inr out \<and> length out = length x
           \<and> list_all (\<lambda>r. length r = n_out) out"
proof -
  from architecture_layers [OF assms(2)] obtain l1 l2 where
    l: "layers m = [LinearL l1, ReLUL, LinearL l2, ReLUL]"
    and s: "in_features l1 = n_in" "out_features l1 = n_hid" "bias l1 = None"
      "in_features l2 = n_hid" "out_features l2 = n_out" "bias l2 = None"
    by blast
  from assms(1) l have wf: "Linear_wf l1" "Linear_wf l2" by simp_all
  let ?a = "map (Linear_row l1) x"
  let ?h = "map (map relu) ?a"
  let ?z = "map (Linear_row l2) ?h"
  have f1: "Linear_forward l1 x = Inr ?a" and a: "list_all (\<lambda>r. length r = n_hid) ?a"
    using Linear_forward_wf [OF wf(1) s(3)] assms(3) s(1,2) by simp_all
  from a have h: "list_all (\<lambda>r. length r = in_features l2) ?h"
    by (simp add: list_all_iff s(4))
  have f2: "Linear_forward l2 ?h = Inr ?z" and z: "list_all (\<lambda>r. length r = n_out) ?z"
    using Linear_forward_wf [OF wf(2) s(6) h] s(5) by simp_all
  from z have r: "list_all (\<lambda>r. length r = n_out) (map (map relu) ?z)"
    by (simp add: list_all_iff)
  have "Model_forward m x = Inr (map (map relu) ?z)"
    by (simp only: Model_forward_def l Sequential_forward.simps Layer_forward.simps f1 f2
        sum.case)
  moreover have "length (map (map relu) ?z) = length x"
    by simp
  ultimately show ?thesis
    using r by blast
qed

lemma Sequential_forward_ReLU_last:
  assumes "Sequential_forward (ls @ [ReLUL]) x = Inr out"
  shows "\<exists>z. Sequential_forward ls x = Inr z \<and> out = map (map relu) z"
  using assms by (auto simp: Sequential_forward_append split: sum.splits)

subsection \<open>The output of the model\<close>

text \<open>
  Claim C9. For the sweep model at any stage of its training (the model that
  \<^verbatim>\<open>Model(layer_size)\<close> builds, after any number of epochs over any loader) and for every
  input \<open>x\<close>: whenever \<^verbatim>\<open>forward\<close> returns, every entry of the output is non-negative,
  since the last layer is a ReLU; when the output of the layers before that ReLU is
  nowhere positive, the output is zero everywhere; and on a batch of rows of 8 numbers
  \<^verbatim>\<open>forward\<close> does return, one number per row.
\<close>

theorem Model_forward_nonneg:
  assumes "epoch_loop g loader lr es (Model_init layer_size g0) = Inr m"
  shows "(\<forall>out. Model_forward m x = Inr out \<longrightarrow> list_all (list_all (\<lambda>v. 0 \<le> v)) out)
       \<and> (\<forall>z. Sequential_forward (butlast (layers m)) x = Inr z
                \<and> list_all (list_all (\<lambda>v. v \<le> 0)) z
              \<longrightarrow> Model_forward m x = Inr (map (map (\<lambda>v. 0)) z))
       \<and> (list_all (\<lambda>r. length r = 8) x \<longrightarrow>
            (\<exists>out. Model_forward m x = Inr out \<and> length out = length x
               \<and> list_all (\<lambda>r. length r = 1) out))"
proof -
  from epoch_loop_inv [OF assms Model_init_wf] have
    wf: "list_all Layer_wf (layers m)" and
    ar: "architecture m = [Some (8, layer_size, False), None, Some (layer_size, 1, False), None]"
    by (simp_all add: Model_init_architecture)
  from architecture_layers [OF ar] obtain l1 l2 where
    l: "layers m = [LinearL l1, ReLUL, LinearL l2] @ [ReLUL]"
    by auto
  have 1: "list_all (list_all (\<lambda>v. 0 \<le> v)) out" if "Model_forward m x = Inr out" for out
  proof -
    from that have "Sequential_forward ([LinearL l1, ReLUL, LinearL l2] @ [ReLUL]) x = Inr out"
      by (simp only: Model_forward_def l)
    from Sequential_forward_ReLU_last [OF this] obtain z where "out = map (map relu) z"
      by blast
    then show ?thesis
      by (simp add: list_all_iff relu_nonneg)
  qed
  have 2: "Model_forward m x = Inr (map (map (\<lambda>v. 0)) z)"
    if "Sequential_forward (butlast (layers m)) x = Inr z \<and> list_all (list_all (\<lambda>v. v \<le> 0)) z"
    for z
  proof -
    from that have z: "Sequential_forward [LinearL l1, ReLUL, LinearL l2] x = Inr z"
      and np: "list_all (list_all (\<lambda>v. v \<le> 0)) z"
      by (simp_all add: l)
    have "Model_forward m x = Inr (map (map relu) z)"
      unfolding Model_forward_def l Sequential_forward_append z by simp
    moreover have "map (map relu) z = map (map (\<lambda>v. 0)) z"
      using np by (auto simp: list_all_iff relu_nonpos)
    ultimately show ?thesis by simp
  qed
  from 1 2 Model_forward_shape [OF wf ar] show ?thesis
    by blast
qed

theorem Model_forward_nonneg_witness:
  "(\<exists>out. Model_forward (Model_init 1 rng_example) [[0, 1, 0, 0, 0, 0, 0, 0]] = Inr out
      \<and> length out = 1 \<and> list_all (list_all (\<lambda>v. 0 \<le> v)) out)
   \<and> Model_forward (Model_init 1 (rng_example\<lparr>init_w2 := \<lambda>j k. - 1\<rparr>))
        [[0, 1, 0, 0, 0, 0, 0, 0]] = Inr [[0]]"
proof -
  let ?m = "Model_init 1 rng_example"
  let ?m' = "Model_init 1 (rng_example\<lparr>init_w2 := \<lambda>j k. - 1\<rparr>)"
  have e: "epoch_loop rng_example train_example (1 / 100) [] ?m = Inr ?m"
    and e': "epoch_loop rng_example train_example (1 / 100) [] ?m' = Inr ?m'"
    by simp_all
  have z: "Sequential_forward (butlast (layers ?m')) [[0, 1, 0, 0, 0, 0, 0, 0]] = Inr [[- 1]]"
    by code_simp
  from Model_forward_nonneg [OF e, of "[[0, 1, 0, 0, 0, 0, 0, 0]]"]
    Model_forward_nonneg [OF e', of "[[0, 1, 0, 0, 0, 0, 0, 0]]"] z
  show ?thesis
    by auto
qed

subsection \<open>The number of parameters\<close>

text \<open>
  Claim C3. For every hidden width \<open>W\<close>, the model \<^verbatim>\<open>Model(W)\<close> has exactly
  \<open>8 * W + W * 1 = 9 * W\<close> scalar parameters (the two weights; there is no bias), and the
  \<^verbatim>\<open>num_param\<close> that \<^verbatim>\<open>get_test_loss(W, epochs)\<close> returns, whenever it returns, is \<open>9 * W\<close>:
  training changes the values of the parameters, never their shapes.
\<close>

theorem Model_num_param:
  "sum_list (parameters_numel (Model_init layer_size g)) = 8 * layer_size + layer_size * 1
   \<and> 8 * layer_size + layer_size * 1 = 9 * layer_size
   \<and> (\<forall>loss np. get_test_loss g train_ld test_ld layer_size E = Inr (loss, np)
        \<longrightarrow> np = 9 * layer_size)"
proof (intro conjI allI impI)
  show "sum_list (parameters_numel (Model_init layer_size g)) = 8 * layer_size + layer_size * 1"
    using parameters_numel_arch [OF Model_init_wf Model_init_architecture, of layer_size g]
    by simp
  show "8 * layer_size + layer_size * 1 = 9 * layer_size"
    by simp
next
  fix loss np
  assume "get_test_loss g train_ld test_ld layer_size E = Inr (loss, np)"
  then obtain m where
    e: "epoch_loop g train_ld (1 / 100) [0..<E] (Model_init layer_size g) = Inr m"
    and np: "np = sum_list (parameters_numel m)"
    by (auto simp: get_test_loss_def split: sum.splits prod.splits)
  from epoch_loop_inv [OF e Model_init_wf] have
    "list_all Layer_wf (layers m)"
    "architecture m = [Some (8, layer_size, False), None, Some (layer_size, 1, False), None]"
    by (simp_all add: Model_init_architecture)
  then show "np = 9 * layer_size"
    unfolding np by (rule parameters_numel_arch)
qed

theorem Model_num_param_witness:
  "sum_list (parameters_numel (Model_init 21 rng_example)) = 189
   \<and> snd (projr (get_test_loss rng_example train_example test_example 1 1)) = 9"
  using Model_num_param [of 21 rng_example] get_test_loss_example
    Model_num_param [of 1 rng_example train_example test_example 1]
  by simp

subsection \<open>The batch the test loss is computed on\<close>

text \<open>
  Claim C10. \<^verbatim>\<open>get_test_loss\<close> computes the test loss on the first batch of the test
  loader only: for a loader without shuffling, of batch size \<open>b\<close> over \<open>n > 0\<close> rows, it is
  the mean squared error of the trained model over the rows \<open>0, ..., min b n - 1\<close>, and
  these are all the rows exactly when \<open>n \<le> b\<close>. For the notebook's test loader (at most
  1000 rows, \<^verbatim>\<open>csv[3000:4000]\<close>, in batches of 1000) that first batch is the whole
  held-out split; with a table of at least 4000 rows the split holds 1000 rows, the batch
  size.
\<close>

theorem get_test_loss_first_batch:
  "(\<not> shuffle test_ld \<and> 0 < batch_size test_ld \<and> 0 < AbaloneData_len (dataset test_ld) \<longrightarrow>
      get_test_loss g train_ld test_ld layer_size E =
        (case epoch_loop g train_ld (1 / 100) [0..<E] (Model_init layer_size g) of
           Inl e \<Rightarrow> Inl e
         | Inr model \<Rightarrow>
        (case test_mse model (dataset test_ld)
                [0..<min (batch_size test_ld) (AbaloneData_len (dataset test_ld))] of
           Inl e \<Rightarrow> Inl e
         | Inr loss \<Rightarrow> Inr (loss, sum_list (parameters_numel model))))
      \<and> (([0..<min (batch_size test_ld) (AbaloneData_len (dataset test_ld))]
            = [0..<AbaloneData_len (dataset test_ld)])
           = (AbaloneData_len (dataset test_ld) \<le> batch_size test_ld)))
   \<and> (3000 < length csv \<longrightarrow>
        get_test_loss g train_ld (test_loader csv) layer_size E =
        (case epoch_loop g train_ld (1 / 100) [0..<E] (Model_init layer_size g) of
           Inl e \<Rightarrow> Inl e
         | Inr model \<Rightarrow>
        (case test_mse model (dataset (test_loader csv))
                [0..<AbaloneData_len (dataset (test_loader csv))] of
           Inl e \<Rightarrow> Inl e
         | Inr loss \<Rightarrow> Inr (loss, sum_list (parameters_numel model)))))
   \<and> (4000 \<le> length csv \<longrightarrow>
        AbaloneData_len (dataset (test_loader csv)) = 1000
        \<and> batch_size (test_loader csv) = 1000)"
proof (intro conjI impI)
  assume a: "\<not> shuffle test_ld \<and> 0 < batch_size test_ld \<and> 0 < AbaloneData_len (dataset test_ld)"
  then show "get_test_loss g train_ld test_ld layer_size E =
        (case epoch_loop g train_ld (1 / 100) [0..<E] (Model_init layer_size g) of
           Inl e \<Rightarrow> Inl e
         | Inr model \<Rightarrow>
        (case test_mse model (dataset test_ld)
                [0..<min (batch_size test_ld) (AbaloneData_len (dataset test_ld))] of
           Inl e \<Rightarrow> Inl e
         | Inr loss \<Rightarrow> Inr (loss, sum_list (parameters_numel model))))"
    by (intro get_test_loss_test_mse) simp_all
  from a show "([0..<min (batch_size test_ld) (AbaloneData_len (dataset test_ld))]
            = [0..<AbaloneData_len (dataset test_ld)])
           = (AbaloneData_len (dataset test_ld) \<le> batch_size test_ld)"
    by (intro upt_min_eq) simp
next
  assume c: "3000 < length csv"
  let ?ld = "test_loader csv"
  have n: "0 < AbaloneData_len (dataset ?ld)" "AbaloneData_len (dataset ?ld) \<le> 1000"
    using c by (simp_all add: test_loader_len)
  have b: "\<not> shuffle ?ld" "0 < batch_size ?ld" "batch_size ?ld = 1000"
    by (simp_all add: test_loader_def)
  have m: "min (batch_size ?ld) (AbaloneData_len (dataset ?ld)) = AbaloneData_len (dataset ?ld)"
    using n b by simp
  show "get_test_loss g train_ld ?ld layer_size E =
        (case epoch_loop g train_ld (1 / 100) [0..<E] (Model_init layer_size g) of
           Inl e \<Rightarrow> Inl e
         | Inr model \<Rightarrow>
        (case test_mse model (dataset ?ld) [0..<AbaloneData_len (dataset ?ld)] of
           Inl e \<Rightarrow> Inl e
         | Inr loss \<Rightarrow> Inr (loss, sum_list (parameters_numel model))))"
    unfolding get_test_loss_test_mse [OF b(1,2) n(1)] m ..
next
  assume "4000 \<le> length csv"
  then show "AbaloneData_len (dataset (test_loader csv)) = 1000"
    by (simp add: test_loader_len)
  show "batch_size (test_loader csv) = 1000"
    by (simp add: test_loader_def)
qed

theorem get_test_loss_first_batch_witness:
  "(\<exists>model. epoch_loop rng_example train_example (1 / 100) [0..<1] (Model_init 1 rng_example)
        = Inr model
      \<and> test_mse model toy_example [0] = Inr (92102409 / 100000000))
   \<and> [0 :: nat] \<noteq> [0..<AbaloneData_len toy_example]
   \<and> AbaloneData_len (dataset (test_loader (replicate 4000 []))) = 1000"
proof -
  have h: "\<not> shuffle test_example \<and> 0 < batch_size test_example
      \<and> 0 < AbaloneData_len (dataset test_example)"
    by (simp add: test_example_def toy_example_def AbaloneData_len_def)
  have i: "[0..<min (batch_size test_example) (AbaloneData_len (dataset test_example))] = [0]"
    "dataset test_example = toy_example" "AbaloneData_len toy_example = 2"
    by (simp_all add: test_example_def toy_example_def AbaloneData_len_def)
  note t = get_test_loss_first_batch
    [of test_example rng_example train_example 1 1 "replicate 4000 []"]
  from t h have g: "get_test_loss rng_example train_example test_example 1 1 =
      (case epoch_loop rng_example train_example (1 / 100) [0..<1] (Model_init 1 rng_example) of
         Inl e \<Rightarrow> Inl e
       | Inr model \<Rightarrow>
      (case test_mse model (dataset test_example)
              [0..<min (batch_size test_example) (AbaloneData_len (dataset test_example))] of
         Inl e \<Rightarrow> Inl e
       | Inr loss \<Rightarrow> Inr (loss, sum_list (parameters_numel model))))"
    by blast
  from t have n: "AbaloneData_len (dataset (test_loader (replicate 4000 []))) = 1000"
    by simp
  from g obtain model where
    "epoch_loop rng_example train_example (1 / 100) [0..<1] (Model_init 1 rng_example)
       = Inr model"
    "test_mse model (dataset test_example)
       [0..<min (batch_size test_example) (AbaloneData_len (dataset test_example))]
       = Inr (92102409 / 100000000)"
    unfolding get_test_loss_example by (auto split: sum.splits)
  then have "\<exists>model.
      epoch_loop rng_example train_example (1 / 100) [0..<1] (Model_init 1 rng_example)
        = Inr model
      \<and> test_mse model toy_example [0] = Inr (92102409 / 100000000)"
    using i by auto
  moreover have "[0 :: nat] \<noteq> [0..<2]"
    by code_simp
  ultimately show ?thesis
    using n unfolding i(3) by blast
qed
section \<open>The training procedure against its specification\<close>

lemma map2_map_map2:
  "length xs = length ys \<Longrightarrow>
   map2 f (map g xs) (map2 h xs ys) = map2 (\<lambda>x y. f (g x) (h x y)) xs ys"
  by (induction xs ys rule: list_induct2) auto

lemma map2_map2_map:
  "length xs = length ys \<Longrightarrow>
   map2 f (map2 h xs ys) (map g xs) = map2 (\<lambda>x y. f (h x y) (g x)) xs ys"
  by (induction xs ys rule: list_induct2) auto

lemma map_map2: "map f (map2 h xs ys) = map2 (\<lambda>x y. f (h x y)) xs ys"
  by (simp add: case_prod_unfold)

lemma map2_map_left: "map2 f (map g xs) ys = map2 (\<lambda>x y. f (g x) y) xs ys"
  by (simp add: zip_map1 case_prod_unfold)

lemma concat_map_single: "concat (map (\<lambda>r. [f r]) xs) = map f xs"
  by (induction xs) auto

text \<open>The forward pass of a model that holds the weights.\<close>

lemma holds_weights_tape:
  assumes "holds_weights m W1 w2" and "list_all (\<lambda>r. length r = 8) x"
  shows "Sequential_tape (layers m) x =
     Inr [x,
          map (\<lambda>r. map (\<lambda>w. dot r w) W1) x,
          map (\<lambda>r. map (\<lambda>w. relu (dot r w)) W1) x,
          map (\<lambda>r. [dot (map (\<lambda>w. relu (dot r w)) W1) w2]) x,
          map (\<lambda>r. [two_layer_spec W1 w2 r]) x]"
    and "Sequential_forward (layers m) x = Inr (map (\<lambda>r. [two_layer_spec W1 w2 r]) x)"
proof -
  from assms(1) obtain l1 l2 where
    l: "layers m = [LinearL l1, ReLUL, LinearL l2, ReLUL]"
    and wf: "Linear_wf l1" "Linear_wf l2"
    and s: "in_features l1 = 8" "out_features l1 = length W1" "bias l1 = None"
      "in_features l2 = length W1" "out_features l2 = 1" "bias l2 = None"
      "weight l1 = W1" "weight l2 = [w2]"
    by (auto simp: holds_weights_def)
  have r1: "Linear_row l1 = (\<lambda>r. map (\<lambda>w. dot r w) W1)"
    by (rule ext) (simp add: Linear_row_def s)
  have r2: "Linear_row l2 = (\<lambda>r. [dot r w2])"
    by (rule ext) (simp add: Linear_row_def s)
  have f1: "Linear_forward l1 x = Inr (map (\<lambda>r. map (\<lambda>w. dot r w) W1) x)"
    using assms(2) by (simp add: Linear_forward_def s r1)
  have f2: "Linear_forward l2 (map (\<lambda>r. map (\<lambda>w. relu (dot r w)) W1) x) =
      Inr (map (\<lambda>r. [dot (map (\<lambda>w. relu (dot r w)) W1) w2]) x)"
    by (simp add: Linear_forward_def s r2 list_all_iff comp_def)
  show "Sequential_tape (layers m) x =
     Inr [x,
          map (\<lambda>r. map (\<lambda>w. dot r w) W1) x,
          map (\<lambda>r. map (\<lambda>w. relu (dot r w)) W1) x,
          map (\<lambda>r. [dot (map (\<lambda>w. relu (dot r w)) W1) w2]) x,
          map (\<lambda>r. [two_layer_spec W1 w2 r]) x]"
    by (simp add: l f1 f2 comp_def two_layer_spec_def)
  show "Sequential_forward (layers m) x = Inr (map (\<lambda>r. [two_layer_spec W1 w2 r]) x)"
    by (simp add: l f1 f2 comp_def two_layer_spec_def)
qed

lemma MSELoss_spec:
  assumes "length x = length y"
  shows "MSELoss (squeeze (map (\<lambda>r. [two_layer_spec W1 w2 r]) x)) y = Inr (mse_spec W1 w2 x y)"
  using assms
  by (simp add: MSELoss_def squeeze_def concat_map_single mse_spec_def map2_map_left)


lemma map2_map2_same:
  "length xs = length ys \<Longrightarrow>
   map2 f (map2 h xs ys) xs = map2 (\<lambda>x y. f (h x y) x) xs ys"
  by (induction xs ys rule: list_induct2) auto

lemma backward_spec:
  assumes s: "in_features l1 = 8" "out_features l1 = length W1" "bias l1 = None"
      "in_features l2 = length W1" "out_features l2 = 1" "bias l2 = None"
      "weight l1 = W1" "weight l2 = [w2]"
    and len: "length w2 = length W1" "length x = length y"
  shows "fst (Sequential_backward [LinearL l1, ReLUL, LinearL l2, ReLUL]
      [x,
       map (\<lambda>r. map (\<lambda>w. dot r w) W1) x,
       map (\<lambda>r. map (\<lambda>w. relu (dot r w)) W1) x,
       map (\<lambda>r. [dot (map (\<lambda>w. relu (dot r w)) W1) w2]) x,
       map (\<lambda>r. [two_layer_spec W1 w2 r]) x]
      (MSELoss_backward (map (two_layer_spec W1 w2) x) y)) =
     [LinearL (l1\<lparr>weight_grad := accumulate (weight_grad l1) (grad_W1_spec W1 w2 x y)\<rparr>),
      ReLUL,
      LinearL (l2\<lparr>weight_grad := accumulate (weight_grad l2) [grad_w2_spec W1 w2 x y]\<rparr>),
      ReLUL]"
proof -
  let ?T = "two_layer_spec W1 w2"
  let ?D = "delta_spec W1 w2 (length y)"
  let ?A = "\<lambda>r. map (\<lambda>w. dot r w) W1"
  let ?H = "\<lambda>r. map (\<lambda>w. relu (dot r w)) W1"
  let ?Z = "\<lambda>r. [dot (?H r) w2]"
  let ?seed = "map2 (\<lambda>r b. [2 * (?T r - b) / real (length y)]) x y"
  let ?g3 = "map2 (\<lambda>r b. [?D r b]) x y"
  let ?g2 = "map2 (\<lambda>r b. map (\<lambda>k. ?D r b * w2 ! k) [0..<length W1]) x y"
  let ?g1 = "map2 (\<lambda>r b. map2 (\<lambda>v g. if 0 < v then g else 0) (?A r)
                 (map (\<lambda>k. ?D r b * w2 ! k) [0..<length W1])) x y"
  have seed: "MSELoss_backward (map ?T x) y = ?seed"
    by (simp add: MSELoss_backward_def map2_map_left)
  have g3: "ReLU_backward (map ?Z x) ?seed = ?g3"
    using len(2)
    by (auto simp add: ReLU_backward_def map2_map_map2 delta_spec_def right_diff_distrib)
  have G2: "Linear_weight_grad l2 (map ?H x) ?g3 = [grad_w2_spec W1 w2 x y]"
    using len by (simp add: Linear_weight_grad_def s map2_map2_map grad_w2_spec_def)
  have g2: "Linear_input_grad l2 ?g3 = ?g2"
    by (auto simp add: Linear_input_grad_def s map_map2)
  have g1: "ReLU_backward (map ?A x) ?g2 = ?g1"
    using len(2) by (simp add: ReLU_backward_def map2_map_map2)
  have pt: "map2 (\<lambda>v g. if 0 < v then g else 0) (?A r)
                 (map (\<lambda>k. ?D r b * w2 ! k) [0..<length W1]) ! j
        = (if 0 < dot r (W1 ! j) then ?D r b * w2 ! j else 0)" if "j < length W1" for r b j
    using that by simp
  have G1: "Linear_weight_grad l1 x ?g1 = grad_W1_spec W1 w2 x y"
    using len(2) by (simp add: Linear_weight_grad_def s map2_map2_same grad_W1_spec_def pt)
  have lb1: "Linear_backward l1 u g =
      (l1\<lparr>weight_grad := accumulate (weight_grad l1) (Linear_weight_grad l1 u g)\<rparr>,
       Linear_input_grad l1 g)" for u g
    by (simp add: Linear_backward_def s)
  have lb2: "Linear_backward l2 u g =
      (l2\<lparr>weight_grad := accumulate (weight_grad l2) (Linear_weight_grad l2 u g)\<rparr>,
       Linear_input_grad l2 g)" for u g
    by (simp add: Linear_backward_def s)
  show ?thesis
    by (simp only: Sequential_backward.simps Layer_backward.simps seed g3 lb2 lb1 g2 g1 G1 G2
        prod.case fst_conv snd_conv)
qed


lemma add_zeros_row: "length a = length b \<Longrightarrow> map2 (+) (map (\<lambda>g. 0) a) b = (b :: real list)"
  by (induction a b rule: list_induct2) auto

lemma add_zeros_matrix:
  assumes "is_matrix r c a" and "is_matrix r c b"
  shows "map2 (map2 (+)) (map (map (\<lambda>g. 0)) a) b = b"
proof -
  from assms have "list_all2 (\<lambda>u v. length u = length v) a b"
    by (auto simp: is_matrix_def list_all2_conv_all_nth list_all_length)
  then show ?thesis
    by (induction a b rule: list_all2_induct) (auto simp: add_zeros_row)
qed

lemma accumulate_cleared:
  assumes "case wg of None \<Rightarrow> True | Some g \<Rightarrow> is_matrix r c g" and "is_matrix r c G"
  shows "accumulate (map_option (map (map (\<lambda>g. 0))) wg) G = Some G"
  using assms by (cases wg) (auto simp: add_zeros_matrix)

lemma is_matrix_grad_W1: "is_matrix (length W1) 8 (grad_W1_spec W1 w2 x y)"
  by (simp add: grad_W1_spec_def is_matrix_map_upt)

lemma is_matrix_grad_w2: "is_matrix 1 (length w2) [grad_w2_spec W1 w2 x y]"
  by (simp add: grad_w2_spec_def is_matrix_def)

lemma train_step_spec:
  assumes "holds_weights m W1 w2" and "list_all (\<lambda>r. length r = 8) x" and "length x = length y"
  shows "\<exists>m'. train_step lr m x y = Inr (m', mse_spec W1 w2 x y)
           \<and> holds_weights m' (fst (sgd_step_spec lr (W1, w2) (x, y)))
                (snd (sgd_step_spec lr (W1, w2) (x, y)))"
proof -
  from assms(1) obtain l1 l2 where
    l: "layers m = [LinearL l1, ReLUL, LinearL l2, ReLUL]"
    and wf: "Linear_wf l1" "Linear_wf l2"
    and s: "in_features l1 = 8" "out_features l1 = length W1" "bias l1 = None"
      "in_features l2 = length W1" "out_features l2 = 1" "bias l2 = None"
      "weight l1 = W1" "weight l2 = [w2]"
    by (auto simp: holds_weights_def)
  let ?z1 = "l1\<lparr>weight_grad := map_option (map (map (\<lambda>g. 0))) (weight_grad l1),
                bias_grad := map_option (map (\<lambda>g. 0)) (bias_grad l1)\<rparr>"
  let ?z2 = "l2\<lparr>weight_grad := map_option (map (map (\<lambda>g. 0))) (weight_grad l2),
                bias_grad := map_option (map (\<lambda>g. 0)) (bias_grad l2)\<rparr>"
  let ?G1 = "grad_W1_spec W1 w2 x y"
  let ?g2 = "grad_w2_spec W1 w2 x y"
  have lw: "length w2 = length W1"
    using wf(2) s by (simp add: Linear_wf_def is_matrix_def)
  have lz: "layers (zero_grad m) = [LinearL ?z1, ReLUL, LinearL ?z2, ReLUL]"
    by (simp add: zero_grad_def l)
  have wz: "Linear_wf ?z1" "Linear_wf ?z2"
    using Layer_zero_grad_wf [of "LinearL l1"] Layer_zero_grad_wf [of "LinearL l2"] wf
    by simp_all
  have hz: "holds_weights (zero_grad m) W1 w2"
    unfolding holds_weights_def using lz wz s by simp
  note tape = holds_weights_tape(1) [OF hz assms(2)]
  have c1: "case weight_grad l1 of None \<Rightarrow> True | Some g \<Rightarrow> is_matrix (length W1) 8 g"
    using wf(1) s by (auto simp: Linear_wf_def split: option.splits)
  have c2: "case weight_grad l2 of None \<Rightarrow> True | Some g \<Rightarrow> is_matrix 1 (length w2) g"
    using wf(2) s lw by (auto simp: Linear_wf_def split: option.splits)
  note a1 = accumulate_cleared [OF c1 is_matrix_grad_W1, of w2 x y]
  note a2 = accumulate_cleared [OF c2 is_matrix_grad_w2, of W1 x y]
  have bw: "fst (Sequential_backward (layers (zero_grad m))
      [x,
       map (\<lambda>r. map (\<lambda>w. dot r w) W1) x,
       map (\<lambda>r. map (\<lambda>w. relu (dot r w)) W1) x,
       map (\<lambda>r. [dot (map (\<lambda>w. relu (dot r w)) W1) w2]) x,
       map (\<lambda>r. [two_layer_spec W1 w2 r]) x]
      (MSELoss_backward (map (two_layer_spec W1 w2) x) y)) =
     [LinearL (?z1\<lparr>weight_grad := Some ?G1\<rparr>), ReLUL,
      LinearL (?z2\<lparr>weight_grad := Some [?g2]\<rparr>), ReLUL]"
    unfolding lz
    by (subst backward_spec [of ?z1 W1 ?z2 w2 x y]) (simp_all add: s lw assms(3) a1 a2)
  let ?m' = "SGD_step lr ((zero_grad m)\<lparr>layers :=
      [LinearL (?z1\<lparr>weight_grad := Some ?G1\<rparr>), ReLUL,
       LinearL (?z2\<lparr>weight_grad := Some [?g2]\<rparr>), ReLUL]\<rparr>)"
  have ts: "train_step lr m x y = Inr (?m', mse_spec W1 w2 x y)"
    by (simp add: train_step_def tape squeeze_def concat_map_single bw
        MSELoss_spec [OF assms(3), unfolded squeeze_def concat_map_single])
  let ?n1 = "?z1\<lparr>weight_grad := Some ?G1,
                 weight := map2 (map2 (\<lambda>w d. w - lr * d)) W1 ?G1\<rparr>"
  let ?n2 = "?z2\<lparr>weight_grad := Some [?g2],
                 weight := [map2 (\<lambda>w d. w - lr * d) w2 ?g2]\<rparr>"
  have l': "layers ?m' = [LinearL ?n1, ReLUL, LinearL ?n2, ReLUL]"
    by (simp add: SGD_step_def s)
  from train_step_inv [OF ts] l wf have "list_all Layer_wf (layers ?m')"
    by simp
  then have wf': "Linear_wf ?n1" "Linear_wf ?n2"
    unfolding l' by simp_all
  have len': "length ?G1 = length W1"
    by (simp add: grad_W1_spec_def)
  have "holds_weights ?m' (map2 (map2 (\<lambda>w d. w - lr * d)) W1 ?G1)
      (map2 (\<lambda>w d. w - lr * d) w2 ?g2)"
    unfolding holds_weights_def
  proof (intro exI conjI)
    show "layers ?m' = [LinearL ?n1, ReLUL, LinearL ?n2, ReLUL]" by (rule l')
    show "Linear_wf ?n1" by (rule wf'(1))
    show "Linear_wf ?n2" by (rule wf'(2))
  qed (simp_all add: s len')
  then show ?thesis
    using ts by (simp add: sgd_step_spec_def)
qed


lemma chunk_subset: "list_all (\<lambda>idxs. list_all (\<lambda>i. i \<in> set xs) idxs) (chunk n xs)"
proof (induction n xs rule: chunk.induct)
  case (1 n xs)
  show ?case
  proof (cases "n = 0 \<or> xs = []")
    case True
    then show ?thesis by (subst chunk.simps) simp
  next
    case False
    with 1 have "list_all (\<lambda>idxs. list_all (\<lambda>i. i \<in> set (drop n xs)) idxs) (chunk n (drop n xs))"
      by simp
    then have "list_all (\<lambda>idxs. list_all (\<lambda>i. i \<in> set xs) idxs) (chunk n (drop n xs))"
      by (auto simp: list_all_iff dest: in_set_dropD)
    moreover have "list_all (\<lambda>i. i \<in> set xs) (take n xs)"
      by (auto simp: list_all_iff dest: in_set_takeD)
    ultimately show ?thesis
      using False by (subst chunk.simps) simp
  qed
qed

lemma DataLoader_iter_range:
  "list_all (\<lambda>idxs. list_all (\<lambda>i. i < length (data (dataset ld))) idxs) (DataLoader_iter ld key)"
  using chunk_subset [of "sampler ld key" "batch_size ld"]
  by (simp add: DataLoader_iter_def set_sampler AbaloneData_len_def)

lemma batch_loop_spec:
  assumes "holds_weights m (fst ws) (snd ws)"
    and "list_all abalone_row (data ds)"
    and "list_all (\<lambda>idxs. list_all (\<lambda>i. i < length (data ds)) idxs) batches"
  shows "\<exists>m' acc'. batch_loop ds lr batches (m, acc) = Inr (m', acc')
     \<and> holds_weights m'
         (fst (fold (\<lambda>batch ws'. sgd_step_spec lr ws' batch)
                 (map (\<lambda>idxs. (map (\<lambda>i. features (data ds ! i)) idxs,
                               map (\<lambda>i. label (data ds ! i)) idxs)) batches) ws))
         (snd (fold (\<lambda>batch ws'. sgd_step_spec lr ws' batch)
                 (map (\<lambda>idxs. (map (\<lambda>i. features (data ds ! i)) idxs,
                               map (\<lambda>i. label (data ds ! i)) idxs)) batches) ws))"
  using assms(1,3)
proof (induction batches arbitrary: m ws acc)
  case Nil
  then show ?case by simp
next
  case (Cons idxs rest)
  let ?xs = "map (\<lambda>i. features (data ds ! i)) idxs"
  let ?ys = "map (\<lambda>i. label (data ds ! i)) idxs"
  from Cons.prems(2) have r: "list_all (\<lambda>i. i < length (data ds)) idxs"
    and rs: "list_all (\<lambda>idxs. list_all (\<lambda>i. i < length (data ds)) idxs) rest"
    by simp_all
  from r assms(2) have rows: "list_all (\<lambda>i. i < length (data ds) \<and> abalone_row (data ds ! i)) idxs"
    by (simp add: list_all_length)
  then have f: "fetch ds idxs = Inr (?xs, ?ys)"
    by (rule fetch_rows)
  from rows have x8: "list_all (\<lambda>r. length r = 8) ?xs"
    by (simp add: list_all_iff features_length)
  have "holds_weights m (fst ws) (snd ws)" by (rule Cons.prems(1))
  from train_step_spec [OF this x8, of ?ys lr] obtain m1 where
    ts: "train_step lr m ?xs ?ys = Inr (m1, mse_spec (fst ws) (snd ws) ?xs ?ys)"
    and h1: "holds_weights m1 (fst (sgd_step_spec lr ws (?xs, ?ys)))
               (snd (sgd_step_spec lr ws (?xs, ?ys)))"
    by auto
  from Cons.IH [OF h1 rs, of "acc + mse_spec (fst ws) (snd ws) ?xs ?ys"] show ?case
    by (simp add: f ts)
qed

lemma epoch_loop_spec:
  assumes "holds_weights m (fst ws) (snd ws)"
    and "list_all abalone_row (data (dataset ld))"
  shows "\<exists>m'. epoch_loop g ld lr es m = Inr m'
     \<and> holds_weights m'
         (fst (fold (\<lambda>epoch ws. fold (\<lambda>batch ws'. sgd_step_spec lr ws' batch)
                 (batches_spec ld (shuffle_key g epoch)) ws) es ws))
         (snd (fold (\<lambda>epoch ws. fold (\<lambda>batch ws'. sgd_step_spec lr ws' batch)
                 (batches_spec ld (shuffle_key g epoch)) ws) es ws))"
  using assms(1)
proof (induction es arbitrary: m ws)
  case Nil
  then show ?case by simp
next
  case (Cons e es)
  let ?ws1 = "fold (\<lambda>batch ws'. sgd_step_spec lr ws' batch)
      (batches_spec ld (shuffle_key g e)) ws"
  from batch_loop_spec [OF Cons.prems assms(2) DataLoader_iter_range, of lr "shuffle_key g e" 0]
  obtain m1 acc1 where
    b: "batch_loop (dataset ld) lr (DataLoader_iter ld (shuffle_key g e)) (m, 0) = Inr (m1, acc1)"
    and h1: "holds_weights m1 (fst ?ws1) (snd ?ws1)"
    by (auto simp: batches_spec_def)
  from Cons.IH [OF h1] show ?case
    by (simp add: b)
qed

lemma Model_init_holds:
  "holds_weights (Model_init W g)
     (map (\<lambda>j. map (\<lambda>k. init_w1 g j k) [0..<8]) [0..<W]) (map (\<lambda>k. init_w2 g 0 k) [0..<W])"
  unfolding holds_weights_def Model_init_def
  by (intro exI conjI, simp, rule Linear_init_wf, rule Linear_init_wf)
    (simp_all add: Linear_init_def)

subsection \<open>The training procedure\<close>

text \<open>
  Claim C6. On loaders over tables of the abalone layout, the test loader not empty,
  \<^verbatim>\<open>get_test_loss(layer_size, epochs)\<close> returns, and what it returns is what the
  specification describes: it builds the network \<open>8 \<rightarrow> layer_size \<rightarrow> 1\<close> of two linear
  layers without bias, each followed by a ReLU; from the initial weights it makes
  exactly \<open>epochs\<close> passes over the training loader, each batch one step of plain
  gradient descent, at learning rate 0.01, on the mean squared error of the batch (the
  gradients that \<^verbatim>\<open>zero_grad\<close>, \<^verbatim>\<open>backward\<close> and \<^verbatim>\<open>step\<close> produce are those of the chain
  rule); and it returns the mean squared error of the trained network on the held-out
  batch together with the parameter count.
\<close>

theorem get_test_loss_refines:
  assumes "list_all abalone_row (data (dataset train_ld))"
    and "list_all abalone_row (data (dataset test_ld))"
    and "0 < AbaloneData_len (dataset test_ld)" and "0 < batch_size test_ld"
  shows "get_test_loss g train_ld test_ld W E = Inr (get_test_loss_spec g train_ld test_ld W E)
       \<and> architecture (Model_init W g) = [Some (8, W, False), None, Some (W, 1, False), None]"
proof -
  let ?ws = "train_spec g train_ld W E"
  let ?w0 = "(map (\<lambda>j. map (\<lambda>k. init_w1 g j k) [0..<8]) [0..<W],
      map (\<lambda>k. init_w2 g 0 k) [0..<W])"
  have h0: "holds_weights (Model_init W g) (fst ?w0) (snd ?w0)"
    using Model_init_holds [of W g] by simp
  from epoch_loop_spec [OF h0 assms(1), of g "1 / 100" "[0..<E]"]
  obtain m where e: "epoch_loop g train_ld (1 / 100) [0..<E] (Model_init W g) = Inr m"
    and h: "holds_weights m (fst ?ws) (snd ?ws)"
    by (auto simp: train_spec_def)
  have ne: "sampler test_ld (shuffle_key g E) \<noteq> []"
    using assms(3) length_sampler [of test_ld "shuffle_key g E"] by auto
  then obtain idxs rest where it: "DataLoader_iter test_ld (shuffle_key g E) = idxs # rest"
    using assms(4) by (simp add: DataLoader_iter_def chunk_Cons)
  from DataLoader_iter_range [of test_ld "shuffle_key g E"] it
  have "list_all (\<lambda>i. i < length (data (dataset test_ld))) idxs"
    by simp
  with assms(2)
  have rows: "list_all (\<lambda>i. i < length (data (dataset test_ld))
      \<and> abalone_row (data (dataset test_ld) ! i)) idxs"
    by (simp add: list_all_length)
  let ?xs = "map (\<lambda>i. features (data (dataset test_ld) ! i)) idxs"
  let ?ys = "map (\<lambda>i. label (data (dataset test_ld) ! i)) idxs"
  have fb: "first_batch test_ld (shuffle_key g E) = Inr (?xs, ?ys)"
    using fetch_rows [OF rows] by (simp add: first_batch_def it)
  from rows have x8: "list_all (\<lambda>r. length r = 8) ?xs"
    by (simp add: list_all_iff features_length)
  have fw: "Model_forward m ?xs = Inr (map (\<lambda>r. [two_layer_spec (fst ?ws) (snd ?ws) r]) ?xs)"
    unfolding Model_forward_def by (rule holds_weights_tape(2) [OF h x8])
  have ms: "MSELoss (squeeze (map (\<lambda>r. [two_layer_spec (fst ?ws) (snd ?ws) r]) ?xs)) ?ys
      = Inr (mse_spec (fst ?ws) (snd ?ws) ?xs ?ys)"
    by (rule MSELoss_spec) simp
  from h have "list_all Layer_wf (layers m)"
    "architecture m = [Some (8, length (fst ?ws), False), None,
       Some (length (fst ?ws), 1, False), None]"
    by (auto simp: holds_weights_def architecture_def)
  moreover have "length (fst ?ws) = W"
    using epoch_loop_inv [OF e Model_init_wf] calculation(2)
    by (simp add: Model_init_architecture)
  ultimately have np: "sum_list (parameters_numel m) = 9 * W"
    using parameters_numel_arch [of m W] by simp
  have hd: "hd (batches_spec test_ld (shuffle_key g E)) = (?xs, ?ys)"
    by (simp add: batches_spec_def it)
  have "get_test_loss g train_ld test_ld W E =
      Inr (0 + mse_spec (fst ?ws) (snd ?ws) ?xs ?ys, 9 * W)"
    by (simp only: get_test_loss_def Let_def e fb fw ms np sum.case prod.case)
  moreover have "get_test_loss_spec g train_ld test_ld W E =
      (mse_spec (fst ?ws) (snd ?ws) ?xs ?ys, 9 * W)"
    by (simp add: get_test_loss_spec_def hd case_prod_unfold)
  ultimately show ?thesis
    by (simp add: Model_init_architecture)
qed

theorem get_test_loss_refines_witness:
  "get_test_loss rng_example train_example test_example 1 1 =
     Inr (get_test_loss_spec rng_example train_example test_example 1 1)
   \<and> get_test_loss_spec rng_example train_example test_example 1 1 =
     (92102409 / 100000000, 9)"
proof -
  have "list_all abalone_row (data (dataset train_example))"
    "list_all abalone_row (data (dataset test_example))"
    "0 < AbaloneData_len (dataset test_example)" "0 < batch_size test_example"
    by (simp_all add: train_example_def test_example_def toy_example_def abalone_row_def
        AbaloneData_len_def)
  from get_test_loss_refines [OF this, of rng_example 1 1] get_test_loss_example
  show ?thesis
    by simp
qed

end
